theory Spec2Isabelle
  imports Main "HOL-Library.Word" "HOL-Library.Monad_Syntax"
begin

unbundle bit_operations_syntax

text \<open>
  A shallow embedding of the offset-index subsystem of libbvg: the Elias-Fano list of
  \<^verbatim>\<open>src/eflist.c\<close> (bit arrays, \<^verbatim>\<open>bit_count\<close>, \<^verbatim>\<open>simple_select_build\<close>,
  \<^verbatim>\<open>select_rank\<close>, \<^verbatim>\<open>eflist_lookup\<close>) and the load, close, memory-query and
  error-string routines of \<^verbatim>\<open>src/bvgraph.c\<close>.

  Conventions of the embedding.
  \<^item> Array cells (\<^verbatim>\<open>uint64_t\<close> and \<^verbatim>\<open>int64_t\<close> elements) are \<open>64 word\<close>; an array is
    the list of its cells, and its length is the number of cells allocated.
  \<^item> Loop counters, indices and sizes are \<open>nat\<close>, signed scalars are \<open>int\<close>; all of them
    stay far below \<open>2^31\<close> in every use made of them here, so the C conversions between
    \<^verbatim>\<open>int\<close>, \<^verbatim>\<open>int64_t\<close> and \<^verbatim>\<open>uint64_t\<close> are the identity on them.
  \<^item> A function that can leave the defined behaviour of C (a read or write outside an
    array, a failed \<^verbatim>\<open>assert\<close>, the conversion of an infinite double) returns an
    option, \<open>None\<close> standing for that; the C return code is part of the value.
  \<^item> \<^verbatim>\<open>malloc\<close> returns uninitialised memory: its contents are a parameter
    \<open>junk\<close> (cell \<open>i\<close> of the fresh block holds \<open>junk i\<close>).
\<close>

section \<open>eflist.c: constants\<close>

definition eflist_out_of_bound :: int where
  "eflist_out_of_bound = - 1"

definition eflist_spill_too_small :: int where
  "eflist_spill_too_small = - 2"

definition eflist_batch_nondecreasing :: int where
  "eflist_batch_nondecreasing = - 3"

definition m1 :: "64 word" where "m1 = 0x5555555555555555"
definition m2 :: "64 word" where "m2 = 0x3333333333333333"
definition m4 :: "64 word" where "m4 = 0x0f0f0f0f0f0f0f0f"
definition m8 :: "64 word" where "m8 = 0x00ff00ff00ff00ff"
definition m16 :: "64 word" where "m16 = 0x0000ffff0000ffff"
definition m32 :: "64 word" where "m32 = 0x00000000ffffffff"

definition MAX_ONES_PER_INVENTORY :: nat where
  "MAX_ONES_PER_INVENTORY = 8192"

definition MAX_SPAN :: "64 word" where
  "MAX_SPAN = push_bit 16 1"

definition DEFAULT_SPILL_SIZE :: nat where
  "DEFAULT_SPILL_SIZE = 10 * 8192"

text \<open>
  The shifts of a 64-bit operand. C leaves a shift by 64 or more undefined; the
  compiled code (x86-64, AArch64) takes the count modulo 64, and that is what \<open>shl64\<close>
  and \<open>shr64\<close> do. The only place where a count of 64 arises is the first mask of
  \<open>bit_array_get\<close> at offset 0.
\<close>

definition shl64 :: "64 word \<Rightarrow> nat \<Rightarrow> 64 word" where
  "shl64 x n = push_bit (n mod 64) x"

definition shr64 :: "64 word \<Rightarrow> nat \<Rightarrow> 64 word" where
  "shr64 x n = drop_bit (n mod 64) x"

text \<open>
  \<^verbatim>\<open>(int)log2(q)\<close> and \<^verbatim>\<open>(int)floor(log2(q))\<close> for an integer \<open>q \<ge> 1\<close>: the
  position of the leading one. This is what the double arithmetic of the source gives
  for \<open>q < 2\<^sup>4\<^sup>8\<close>. For a larger \<open>q\<close> just below a power of two, \<^verbatim>\<open>log2\<close> rounds up to
  the next integer and the source yields one more than \<open>ilog2\<close>; the function is not
  used on such a \<open>q\<close> in what follows. (\<open>q = 0\<close> gives minus infinity in C and is
  excluded by the callers below.)
\<close>

fun ilog2 :: "nat \<Rightarrow> nat" where
  "ilog2 q = (if q < 2 then 0 else Suc (ilog2 (q div 2)))"

declare ilog2.simps [simp del]

section \<open>eflist.c: bit operations on one word\<close>

text \<open>
  \<^verbatim>\<open>static int get_bitk(uint64_t *upper, int64_t k)\<close>: bit \<open>k mod 64\<close> of word
  \<open>k div 64\<close>, as 0 or 1.
\<close>

definition get_bitk :: "64 word list \<Rightarrow> nat \<Rightarrow> int option" where
  "get_bitk upper k =
    (let index = drop_bit 6 k;
         offset = k AND (2 ^ 6 - 1)
     in if index < length upper then
          (let tmp = (upper ! index) AND shl64 1 offset
           in if tmp = 0 then Some 0 else Some 1)
        else None)"

text \<open>
  \<^verbatim>\<open>static int bit_count(int64_t x)\<close>. The parameter is signed, so each \<^verbatim>\<open>>>\<close> is
  an arithmetic shift (\<open>signed_drop_bit\<close>); the masks are unsigned, so \<^verbatim>\<open>&\<close> and
  \<^verbatim>\<open>+\<close> are computed on 64 bits. The result is converted to \<^verbatim>\<open>int\<close> (32 bits).
\<close>

definition bit_count :: "64 word \<Rightarrow> 32 word" where
  "bit_count x0 =
    (let x1 = (x0 AND m1) + (signed_drop_bit 1 x0 AND m1);
         x2 = (x1 AND m2) + (signed_drop_bit 2 x1 AND m2);
         x3 = (x2 AND m4) + (signed_drop_bit 4 x2 AND m4);
         x4 = (x3 AND m8) + (signed_drop_bit 8 x3 AND m8);
         x5 = (x4 AND m16) + (signed_drop_bit 16 x4 AND m16);
         x6 = (x5 AND m32) + (signed_drop_bit 32 x5 AND m32)
     in ucast x6)"

text \<open>The reference: the number of positions below 64 at which the word has a one.\<close>

definition popcount :: "64 word \<Rightarrow> nat" where
  "popcount x = length (filter (bit x) [0..<64])"

section \<open>eflist.c: bit arrays\<close>

text \<open>
  \<^verbatim>\<open>bit_array\<close>: the item width \<open>s\<close> (\<open>-1\<close> for an array of single bits), the
  words \<open>A\<close> (the empty list for the \<^verbatim>\<open>NULL\<close> of width 0) and the fill count
  \<open>curr\<close>. The header that declares the struct is not among the sources; the fields
  are those eflist.c uses.
\<close>

record bit_array =
  ba_s :: int
  ba_A :: "64 word list"
  ba_curr :: nat

definition bit_array_setbit :: "bit_array \<Rightarrow> int \<Rightarrow> bit_array option" where
  "bit_array_setbit ptr k =
    (if \<not> ba_s ptr < 0 then None
     else
       let index = drop_bit 6 k;
           offset = nat (k AND (2 ^ 6 - 1))
       in if 0 \<le> index \<and> nat index < length (ba_A ptr) then
            Some (ptr\<lparr>ba_A := (ba_A ptr)[nat index := (ba_A ptr ! nat index) OR shl64 1 offset]\<rparr>)
          else None)"

definition bit_array_insert :: "bit_array \<Rightarrow> 64 word \<Rightarrow> nat \<Rightarrow> bit_array option" where
  "bit_array_insert ptr num k =
    (if ba_s ptr = 0 then Some ptr
     else if \<not> 0 < ba_s ptr then None
     else
       let s = nat (ba_s ptr);
           index = k * s div 64;
           offset = (k * s) mod 64
       in if offset + s \<le> 64 then
            (if index < length (ba_A ptr) then
               Some (ptr\<lparr>ba_A := (ba_A ptr)[index := (ba_A ptr ! index) OR shl64 num (64 - offset - s)]\<rparr>)
             else None)
          else
            (let diff = offset + s - 64
             in if index + 1 < length (ba_A ptr) then
                  (let A1 = (ba_A ptr)[index := (ba_A ptr ! index) OR shr64 num diff];
                       A2 = A1[index + 1 := (A1 ! (index + 1)) OR shl64 num (64 - diff)]
                   in Some (ptr\<lparr>ba_A := A2\<rparr>))
                else None))"

text \<open>
  \<^verbatim>\<open>bit_array_get\<close> is only ever called on the lower array (width \<open>s \<ge> 0\<close>); a
  negative width is left out of the defined behaviour.
\<close>

definition bit_array_get :: "bit_array \<Rightarrow> nat \<Rightarrow> 64 word option" where
  "bit_array_get ptr k =
    (if ba_s ptr = 0 then Some 0
     else if ba_s ptr < 0 then None
     else
       let s = nat (ba_s ptr);
           index = k * s div 64;
           offset = (k * s) mod 64
       in if offset + s \<le> 64 then
            (if index < length (ba_A ptr) then
               (let mask = shl64 1 (64 - offset) - 1;
                    mask = mask - (shl64 1 (64 - offset - s) - 1);
                    rval = (ba_A ptr ! index) AND mask
                in Some (shr64 rval (64 - offset - s)))
             else None)
          else
            (let diff = offset + s - 64
             in if index + 1 < length (ba_A ptr) then
                  (let mask = shl64 1 (s - diff) - 1;
                       rval = (ba_A ptr ! index) AND mask;
                       next_mask = 0xFFFFFFFFFFFFFFFF;
                       next_mask = next_mask - (shl64 1 (64 - diff) - 1);
                       nxt = (ba_A ptr ! (index + 1)) AND next_mask;
                       nxt = shr64 nxt (64 - diff);
                       rval = shl64 rval diff OR nxt
                   in Some rval)
                else None))"

text \<open>
  \<^verbatim>\<open>bit_array_create\<close> sets the width and allocates zeroed words; it leaves
  \<open>curr\<close> alone.
\<close>

definition bit_array_create :: "bit_array \<Rightarrow> int \<Rightarrow> nat \<Rightarrow> bit_array" where
  "bit_array_create ptr s sz =
    (if s = 0 then ptr\<lparr>ba_s := s, ba_A := []\<rparr>
     else
       let array_len = (if 0 < s then (nat s * sz + 63) div 64 else sz)
       in ptr\<lparr>ba_s := s, ba_A := replicate array_len 0\<rparr>)"

definition bit_array_getbitk :: "bit_array \<Rightarrow> nat \<Rightarrow> int option" where
  "bit_array_getbitk ptr k = (if ba_s ptr < 0 then get_bitk (ba_A ptr) k else None)"

section \<open>eflist.c: the Elias-Fano list\<close>

text \<open>
  \<^verbatim>\<open>elias_fano_list\<close>, with the fields eflist.c reads and writes. \<open>ef_inventory\<close>
  and \<open>ef_exact_spill\<close> are arrays of \<^verbatim>\<open>int64_t\<close>: a cell is read as signed with
  \<open>sint\<close>.
\<close>

record elias_fano_list =
  ef_size :: nat
  ef_s :: nat
  ef_lower :: bit_array
  ef_upper :: bit_array
  ef_bitarraylen :: nat
  ef_num_ones :: nat
  ef_log2_ones_per_inventory :: nat
  ef_ones_per_inventory :: nat
  ef_ones_per_inventory_mask :: nat
  ef_inventory_size :: nat
  ef_inventory :: "64 word list"
  ef_exact_spill :: "64 word list"
  ef_spill_size :: nat

text \<open>
  \<^verbatim>\<open>eflist_init\<close>: \<^verbatim>\<open>memset\<close> to zero, then the widths and the two bit arrays,
  then the default spill buffer. The quotient \<open>(largest + 1) / num_elements\<close> is an
  unsigned division; when it is 0 the logarithm is minus infinity and its conversion to
  \<^verbatim>\<open>int\<close> is undefined.
\<close>

definition eflist_zero :: elias_fano_list where
  "eflist_zero =
    \<lparr>ef_size = 0, ef_s = 0,
     ef_lower = \<lparr>ba_s = 0, ba_A = [], ba_curr = 0\<rparr>,
     ef_upper = \<lparr>ba_s = 0, ba_A = [], ba_curr = 0\<rparr>,
     ef_bitarraylen = 0, ef_num_ones = 0, ef_log2_ones_per_inventory = 0,
     ef_ones_per_inventory = 0, ef_ones_per_inventory_mask = 0, ef_inventory_size = 0,
     ef_inventory = [], ef_exact_spill = [], ef_spill_size = 0\<rparr>"

definition eflist_init :: "nat \<Rightarrow> nat \<Rightarrow> (nat \<Rightarrow> 64 word) \<Rightarrow> elias_fano_list option" where
  "eflist_init num_elements largest junk =
    (if num_elements \<noteq> 0 \<and> (largest + 1) div num_elements = 0 then None
     else
       let s = (if num_elements = 0 then 0 else ilog2 ((largest + 1) div num_elements));
           ef = eflist_zero\<lparr>ef_size := num_elements, ef_s := s\<rparr>;
           ef = ef\<lparr>ef_lower := bit_array_create (ef_lower ef) (int s) num_elements\<rparr>;
           upper_length = num_elements + drop_bit s largest;
           ef = ef\<lparr>ef_bitarraylen := upper_length\<rparr>;
           ef = ef\<lparr>ef_upper := bit_array_create (ef_upper ef) (- 1) ((upper_length + 63) div 64)\<rparr>
       in Some (ef\<lparr>ef_spill_size := DEFAULT_SPILL_SIZE,
                    ef_exact_spill := map junk [0..<DEFAULT_SPILL_SIZE]\<rparr>))"

text \<open>
  \<^verbatim>\<open>int eflist_add(elias_fano_list *ef, int64_t elem)\<close>. The result is the return code
  and the list as the call leaves it. On \<^verbatim>\<open>int64_t\<close>, \<^verbatim>\<open>elem & mask\<close> and the
  arithmetic shift \<^verbatim>\<open>elem >> s\<close> are \<open>AND\<close> and \<open>drop_bit\<close> on \<open>int\<close>.
\<close>

definition eflist_add :: "elias_fano_list \<Rightarrow> int \<Rightarrow> (int \<times> elias_fano_list) option" where
  "eflist_add ef elem =
    (if ba_curr (ef_lower ef) \<ge> ef_size ef then Some (eflist_out_of_bound, ef)
     else
       let index = ba_curr (ef_lower ef);
           mask = push_bit (ef_s ef) 1 - 1;
           val = elem AND mask
       in do {
            lower \<leftarrow> bit_array_insert (ef_lower ef) (word_of_int val) index;
            let k = drop_bit (ef_s ef) elem + int index;
            upper \<leftarrow> bit_array_setbit (ef_upper ef) k;
            Some (0, ef\<lparr>ef_lower := lower\<lparr>ba_curr := ba_curr lower + 1\<rparr>,
                        ef_upper := upper\<lparr>ba_curr := ba_curr upper + 1\<rparr>\<rparr>)
          })"

text \<open>
  \<^verbatim>\<open>eflist_addbatch\<close>: the first loop looks for an adjacent pair that decreases, the
  second adds the elements one by one and stops at the first nonzero return code.
\<close>

fun nondecreasing_check :: "int list \<Rightarrow> bool" where
  "nondecreasing_check (x # y # ys) = (if x \<le> y then nondecreasing_check (y # ys) else False)"
| "nondecreasing_check _ = True"

fun eflist_add_all :: "elias_fano_list \<Rightarrow> int list \<Rightarrow> (int \<times> elias_fano_list) option" where
  "eflist_add_all ef [] = Some (0, ef)"
| "eflist_add_all ef (x # xs) =
    (case eflist_add ef x of
       None \<Rightarrow> None
     | Some (rval, ef') \<Rightarrow> if rval \<noteq> 0 then Some (rval, ef') else eflist_add_all ef' xs)"

definition eflist_addbatch :: "elias_fano_list \<Rightarrow> int list \<Rightarrow> (int \<times> elias_fano_list) option" where
  "eflist_addbatch ef arr =
    (if \<not> nondecreasing_check arr then Some (eflist_batch_nondecreasing, ef)
     else eflist_add_all ef arr)"

section \<open>eflist.c: the select structure\<close>

text \<open>
  \<^verbatim>\<open>for (i = 0; i < length; i ++)\<close> with a body that may leave the defined
  behaviour: the body is run on each index in turn, and the first \<open>None\<close> ends the run.
\<close>

fun for_loop :: "nat list \<Rightarrow> (nat \<Rightarrow> 'a \<Rightarrow> 'a option) \<Rightarrow> 'a \<Rightarrow> 'a option" where
  "for_loop [] body st = Some st"
| "for_loop (i # ks) body st =
    (case body i st of None \<Rightarrow> None | Some st' \<Rightarrow> for_loop ks body st')"

text \<open>
  The local variables of \<^verbatim>\<open>simple_select_build\<close> that live across loop iterations,
  together with the two arrays the loops write. \<^verbatim>\<open>spilled\<close>, \<^verbatim>\<open>ones\<close> and
  \<^verbatim>\<open>inventory_index\<close> are of type \<^verbatim>\<open>int\<close> and \<^verbatim>\<open>d\<close> is an \<^verbatim>\<open>int64_t\<close>; here
  they are unbounded, which is what the source computes as long as the upper bit array
  holds fewer than \<open>2\<^sup>3\<^sup>1\<close> ones.
\<close>

record select_locals =
  sl_d :: nat
  sl_start :: "64 word"
  sl_span :: "64 word"
  sl_spilled :: int
  sl_inventory_index :: nat
  sl_ones :: int
  sl_inventory :: "64 word list"
  sl_exact_spill :: "64 word list"

text \<open>
  Each of the three loops has the shape
  \<^verbatim>\<open>for (i = 0; i < length; i ++) { if (bit_array_getbitk(&(ef->upper), i) == 1) { ... } }\<close>;
  \<open>pass1_one\<close>, \<open>pass2_one\<close> and \<open>pass3_one\<close> are the blocks guarded by the test.
\<close>

text \<open>First loop: the position of every \<open>ones_per_inventory\<close>-th one goes to the inventory.\<close>

definition pass1_one :: "elias_fano_list \<Rightarrow> nat \<Rightarrow> select_locals \<Rightarrow> select_locals option" where
  "pass1_one ef i st =
    (if sl_d st AND ef_ones_per_inventory_mask ef = 0 then
       (let idx = drop_bit (ef_log2_ones_per_inventory ef) (sl_d st)
        in if idx < length (sl_inventory st) then
             Some (st\<lparr>sl_inventory := (sl_inventory st)[idx := word_of_nat i],
                      sl_d := sl_d st + 1\<rparr>)
           else None)
     else Some (st\<lparr>sl_d := sl_d st + 1\<rparr>))"

definition pass1_body :: "elias_fano_list \<Rightarrow> nat \<Rightarrow> select_locals \<Rightarrow> select_locals option" where
  "pass1_body ef i st =
    do {
      b \<leftarrow> bit_array_getbitk (ef_upper ef) i;
      if b = 1 then pass1_one ef i st else Some st
    }"

text \<open>Second loop: count the ones of the blocks that span at least \<open>MAX_SPAN\<close> bits.\<close>

definition pass2_one :: "elias_fano_list \<Rightarrow> nat \<Rightarrow> select_locals \<Rightarrow> select_locals option" where
  "pass2_one ef i st =
    (if sl_d st AND ef_ones_per_inventory_mask ef = 0 then
       (let inventory_index = drop_bit (ef_log2_ones_per_inventory ef) (sl_d st)
        in if inventory_index + 1 < length (sl_inventory st) then
             (let start = sl_inventory st ! inventory_index;
                  span = sl_inventory st ! (inventory_index + 1) - start;
                  ones = min (int (ef_num_ones ef) - int (sl_d st)) (int (ef_ones_per_inventory ef));
                  spilled = (if span \<ge> MAX_SPAN then sl_spilled st + ones else sl_spilled st)
              in Some (st\<lparr>sl_inventory_index := inventory_index, sl_start := start,
                          sl_span := span, sl_ones := ones, sl_spilled := spilled,
                          sl_d := sl_d st + 1\<rparr>))
           else None)
     else Some (st\<lparr>sl_d := sl_d st + 1\<rparr>))"

definition pass2_body :: "elias_fano_list \<Rightarrow> nat \<Rightarrow> select_locals \<Rightarrow> select_locals option" where
  "pass2_body ef i st =
    do {
      b \<leftarrow> bit_array_getbitk (ef_upper ef) i;
      if b = 1 then pass2_one ef i st else Some st
    }"

text \<open>
  Third loop: the blocks that span at least \<open>MAX_SPAN\<close> bits get the negated spill index in
  the inventory and the position of each of their ones in \<open>exact_spill\<close>. The
  \<^verbatim>\<open>continue\<close> of the source leaves the iteration before \<^verbatim>\<open>d ++\<close>.
\<close>

definition pass3_one :: "elias_fano_list \<Rightarrow> nat \<Rightarrow> select_locals \<Rightarrow> select_locals option" where
  "pass3_one ef i st =
    do {
      st \<leftarrow> (if sl_d st AND ef_ones_per_inventory_mask ef = 0 then
               (let inventory_index = drop_bit (ef_log2_ones_per_inventory ef) (sl_d st)
                in if inventory_index + 1 < length (sl_inventory st) then
                     (let start = sl_inventory st ! inventory_index;
                          span = sl_inventory st ! (inventory_index + 1) - start
                      in Some (st\<lparr>sl_inventory_index := inventory_index, sl_start := start,
                                  sl_span := span\<rparr>))
                   else None)
             else Some st);
      if sl_span st < MAX_SPAN then Some st
      else
        do {
          st \<leftarrow> (if sl_d st AND ef_ones_per_inventory_mask ef = 0 then
                   (if sl_inventory_index st < length (sl_inventory st) then
                      Some (st\<lparr>sl_inventory := (sl_inventory st)
                              [sl_inventory_index st := word_of_int (- sl_spilled st)]\<rparr>)
                    else None)
                 else Some st);
          if 0 \<le> sl_spilled st \<and> nat (sl_spilled st) < length (sl_exact_spill st) then
            Some (st\<lparr>sl_exact_spill := (sl_exact_spill st)[nat (sl_spilled st) := word_of_nat i],
                     sl_spilled := sl_spilled st + 1,
                     sl_d := sl_d st + 1\<rparr>)
          else None
        }
    }"

definition pass3_body :: "elias_fano_list \<Rightarrow> nat \<Rightarrow> select_locals \<Rightarrow> select_locals option" where
  "pass3_body ef i st =
    do {
      b \<leftarrow> bit_array_getbitk (ef_upper ef) i;
      if b = 1 then pass3_one ef i st else Some st
    }"

text \<open>
  The head of \<^verbatim>\<open>simple_select_build\<close>: the window
  \<open>ceil(num_ones * MAX_ONES_PER_INVENTORY / length)\<close> (1 for an empty array), and the
  fields derived from it, with the inventory freshly allocated (\<open>junk\<close> gives the
  contents of the block \<^verbatim>\<open>malloc\<close> returns).
\<close>

definition select_window :: "elias_fano_list \<Rightarrow> nat \<Rightarrow> nat" where
  "select_window ef num_ones =
    (let len = ef_bitarraylen ef
     in if len = 0 then 1 else (num_ones * MAX_ONES_PER_INVENTORY + len - 1) div len)"

definition select_params ::
  "elias_fano_list \<Rightarrow> nat \<Rightarrow> (nat \<Rightarrow> 64 word) \<Rightarrow> elias_fano_list" where
  "select_params ef0 num_ones junk =
    (let ef = ef0\<lparr>ef_num_ones := num_ones\<rparr>;
         ef = ef\<lparr>ef_log2_ones_per_inventory := ilog2 (select_window ef0 num_ones)\<rparr>;
         ef = ef\<lparr>ef_ones_per_inventory := push_bit (ef_log2_ones_per_inventory ef) 1\<rparr>;
         ef = ef\<lparr>ef_ones_per_inventory_mask := ef_ones_per_inventory ef - 1\<rparr>;
         ef = ef\<lparr>ef_inventory_size :=
                (num_ones + ef_ones_per_inventory ef - 1) div ef_ones_per_inventory ef\<rparr>
     in ef\<lparr>ef_inventory := map junk [0..<ef_inventory_size ef + 1]\<rparr>)"

text \<open>
  \<^verbatim>\<open>int simple_select_build(elias_fano_list *ef, int64_t num_ones, int spill_var_len)\<close>.
  The result is the return code and the list as the call leaves it. A window of 0 (no
  ones in a non-empty array) has no logarithm. The spill that is reallocated when
  \<^verbatim>\<open>spill_var_len\<close> is set gets the junk that follows the inventory's.
\<close>

definition simple_select_build ::
  "elias_fano_list \<Rightarrow> nat \<Rightarrow> bool \<Rightarrow> (nat \<Rightarrow> 64 word) \<Rightarrow> (int \<times> elias_fano_list) option" where
  "simple_select_build ef0 num_ones spill_var_len junk =
    (if select_window ef0 num_ones = 0 then None
     else
       let len = ef_bitarraylen ef0;
           ef = select_params ef0 num_ones junk;
           st0 = \<lparr>sl_d = 0, sl_start = 0, sl_span = 0, sl_spilled = 0,
                  sl_inventory_index = 0, sl_ones = 0,
                  sl_inventory = ef_inventory ef, sl_exact_spill = ef_exact_spill ef\<rparr>
       in do {
            st1 \<leftarrow> for_loop [0..<len] (pass1_body ef) st0;
            let st1 = st1\<lparr>sl_inventory :=
                           (sl_inventory st1)[ef_inventory_size ef := word_of_nat len]\<rparr>;
            if ef_ones_per_inventory ef > 1 then
              do {
                st2 \<leftarrow> for_loop [0..<len] (pass2_body ef) (st1\<lparr>sl_d := 0\<rparr>);
                let spilled = sl_spilled st2;
                if spilled > 0 \<and> int (ef_spill_size ef) < spilled \<and> \<not> spill_var_len then
                  Some (eflist_spill_too_small, ef\<lparr>ef_inventory := sl_inventory st2\<rparr>)
                else
                  do {
                    let realloc = (spilled > 0 \<and> int (ef_spill_size ef) < spilled \<and> spill_var_len);
                    let ef = (if realloc then
                                ef\<lparr>ef_spill_size := nat spilled,
                                   ef_exact_spill :=
                                     map (\<lambda>i. junk (ef_inventory_size ef + 1 + i)) [0..<nat spilled]\<rparr>
                              else ef);
                    st3 \<leftarrow> for_loop [0..<len] (pass3_body ef)
                            (st2\<lparr>sl_spilled := 0, sl_d := 0,
                                 sl_exact_spill := ef_exact_spill ef\<rparr>);
                    Some (0, ef\<lparr>ef_inventory := sl_inventory st3,
                                ef_exact_spill := sl_exact_spill st3\<rparr>)
                  }
              }
            else Some (0, ef\<lparr>ef_inventory := sl_inventory st1\<rparr>)
          })"

text \<open>
  The two inner loops of \<^verbatim>\<open>select_rank\<close> walk the bits \<open>ks\<close> of one word: a set bit
  decrements \<open>subrank\<close>, and the walk returns the bit position (\<open>Inl\<close>) as soon as
  \<open>subrank\<close> is 0; otherwise it falls out of the loop with what is left (\<open>Inr\<close>).
\<close>

fun scan_bits :: "64 word \<Rightarrow> nat list \<Rightarrow> int \<Rightarrow> nat + int" where
  "scan_bits w [] subrank = Inr subrank"
| "scan_bits w (k # ks) subrank =
    (let subrank = (if (w AND shl64 1 k) \<noteq> 0 \<and> subrank \<noteq> 0 then subrank - 1 else subrank)
     in if subrank = 0 then Inl k else scan_bits w ks subrank)"

text \<open>
  The \<^verbatim>\<open>while (ones < subrank)\<close> loop, entered with \<open>upper_index\<close> already
  incremented: it reads one word per round and stops at the word that holds the one
  looked for. Reading past the array ends the defined behaviour.
\<close>

function skip_words :: "64 word list \<Rightarrow> nat \<Rightarrow> int \<Rightarrow> (nat \<times> int) option" where
  "skip_words A upper_index subrank =
    (if upper_index < length A then
       (let ones = sint (bit_count (A ! upper_index))
        in if ones < subrank then skip_words A (upper_index + 1) (subrank - ones)
           else Some (upper_index, subrank))
     else None)"
  by pat_completeness auto
termination
  by (relation "measure (\<lambda>(A, upper_index, subrank). length A - upper_index)") auto

declare skip_words.simps [simp del]

text \<open>
  \<^verbatim>\<open>static int64_t select_rank(uint64_t rank, elias_fano_list *ef)\<close>. The result is the
  \<^verbatim>\<open>int64_t\<close> returned, as a word (\<open>-1\<close> is \<open>eflist_out_of_bound\<close>).
\<close>

definition select_rank :: "nat \<Rightarrow> elias_fano_list \<Rightarrow> 64 word option" where
  "select_rank rank ef =
    (if rank \<ge> ef_num_ones ef then Some (word_of_int eflist_out_of_bound)
     else
       let inventory_index = drop_bit (ef_log2_ones_per_inventory ef) rank
       in if \<not> inventory_index < length (ef_inventory ef) then None
          else
            let inventory_rank = ef_inventory ef ! inventory_index;
                subrank = int (rank AND ef_ones_per_inventory_mask ef)
            in if subrank = 0 then Some (inventory_rank AND NOT (shl64 1 63))
               else if sint inventory_rank < 0 then
                 (let j = sint (- inventory_rank + word_of_int subrank)
                  in if 0 \<le> j \<and> nat j < length (ef_exact_spill ef) then
                       Some (ef_exact_spill ef ! nat j)
                     else None)
               else
                 let A = ba_A (ef_upper ef);
                     upper_index = nat (drop_bit 6 (sint inventory_rank));
                     offset = nat (sint inventory_rank AND (2 ^ 6 - 1))
                 in do {
                      r \<leftarrow> (if offset + 1 < 64 then
                              (if upper_index < length A then
                                 Some (scan_bits (A ! upper_index) [offset + 1..<64] subrank)
                               else None)
                            else Some (Inr subrank));
                      case r of
                        Inl k \<Rightarrow> Some (word_of_nat (push_bit 6 upper_index + k))
                      | Inr subrank \<Rightarrow>
                          do {
                            (upper_index, subrank) \<leftarrow> skip_words A (upper_index + 1) subrank;
                            case scan_bits (A ! upper_index) [0..<64] subrank of
                              Inl j \<Rightarrow> Some (word_of_nat (push_bit 6 upper_index + j))
                            | Inr subrank \<Rightarrow> Some 0
                          }
                    })"

text \<open>
  \<^verbatim>\<open>int64_t eflist_lookup(elias_fano_list *ef, int64_t index)\<close>: the result of
  \<^verbatim>\<open>select_rank\<close> is used as it comes, error code included.
\<close>

definition eflist_lookup :: "elias_fano_list \<Rightarrow> nat \<Rightarrow> 64 word option" where
  "eflist_lookup ef index =
    do {
      lowx \<leftarrow> bit_array_get (ef_lower ef) index;
      highx \<leftarrow> select_rank index ef;
      Some (shl64 (highx - word_of_nat index) (ef_s ef) OR lowx)
    }"

text \<open>
  The way the list is used by its callers, as one function: \<^verbatim>\<open>eflist_init\<close> with the
  capacity and the upper bound, \<^verbatim>\<open>eflist_add\<close> of each element in turn,
  \<^verbatim>\<open>simple_select_build\<close> with the capacity as the number of ones. The result is
  the indexed list, and \<open>None\<close> when a step returns a nonzero code or leaves the
  defined behaviour.
\<close>

definition eflist_built ::
  "nat \<Rightarrow> nat \<Rightarrow> int list \<Rightarrow> (nat \<Rightarrow> 64 word) \<Rightarrow> elias_fano_list option" where
  "eflist_built n u xs junk =
    do {
      ef \<leftarrow> eflist_init n u junk;
      (r, ef) \<leftarrow> eflist_add_all ef xs;
      if r \<noteq> 0 then None
      else
        do {
          (r, ef) \<leftarrow> simple_select_build ef n False (\<lambda>i. junk (DEFAULT_SPILL_SIZE + i));
          if r \<noteq> 0 then None else Some ef
        }
    }"

text \<open>
  Two notions the claims about the select structure are stated with. \<open>ones_of ef\<close> is
  the increasing list of the positions below \<open>ef_bitarraylen ef\<close> at which the upper bit
  array holds a one. \<open>block_span ef k\<close> is the span of inventory block \<open>k\<close>: the distance
  from the first one of the block to the first one of the next block, or to the end of
  the array when there is no next block.
\<close>

definition ones_of :: "elias_fano_list \<Rightarrow> nat list" where
  "ones_of ef =
    filter (\<lambda>i. bit_array_getbitk (ef_upper ef) i = Some 1) [0..<ef_bitarraylen ef]"

definition block_span :: "elias_fano_list \<Rightarrow> nat \<Rightarrow> nat" where
  "block_span ef k =
    (let P = ones_of ef;
         q = ef_ones_per_inventory ef
     in (if (k + 1) * q < length P then P ! ((k + 1) * q) else ef_bitarraylen ef) - P ! (k * q))"

section \<open>Error codes and error strings of bvgraph.c\<close>

text \<open>
  The error codes are the \<^verbatim>\<open>const int\<close> globals at the top of bvgraph.c.
\<close>

definition bvgraph_call_out_of_memory :: int where
  "bvgraph_call_out_of_memory = - 1"

definition bvgraph_call_io_error :: int where
  "bvgraph_call_io_error = - 2"

definition bvgraph_call_unsupported :: int where
  "bvgraph_call_unsupported = - 3"

definition bvgraph_load_error_filename_too_long :: int where
  "bvgraph_load_error_filename_too_long = 11"

definition bvgraph_load_error_buffer_too_small :: int where
  "bvgraph_load_error_buffer_too_small = 12"

definition bvgraph_property_file_error :: int where
  "bvgraph_property_file_error = 21"

definition bvgraph_unsupported_version :: int where
  "bvgraph_unsupported_version = 22"

definition bvgraph_property_file_compression_flag_error :: int where
  "bvgraph_property_file_compression_flag_error = 23"

definition bvgraph_vertex_out_of_range :: int where
  "bvgraph_vertex_out_of_range = 31"

definition bvgraph_requires_offsets :: int where
  "bvgraph_requires_offsets = 32"

definition bvgraph_unsupported_coding :: int where
  "bvgraph_unsupported_coding = 33"

lemmas bvgraph_error_codes =
  bvgraph_call_out_of_memory_def bvgraph_call_io_error_def bvgraph_call_unsupported_def
  bvgraph_load_error_filename_too_long_def bvgraph_load_error_buffer_too_small_def
  bvgraph_property_file_error_def bvgraph_unsupported_version_def
  bvgraph_property_file_compression_flag_error_def bvgraph_vertex_out_of_range_def
  bvgraph_requires_offsets_def bvgraph_unsupported_coding_def

text \<open>
  \<^verbatim>\<open>const char* bvgraph_error_string(int code)\<close>. A C string pointer may be
  \<^verbatim>\<open>NULL\<close>, so the result is a \<open>string option\<close> with \<open>None\<close> for the null
  pointer. The chain of comparisons is kept in the source's order, including the
  eighth test, which compares with \<open>bvgraph_call_io_error\<close> a second time.
\<close>

definition bvgraph_error_string :: "int \<Rightarrow> string option" where
  "bvgraph_error_string code =
    (if code = bvgraph_call_out_of_memory then
       Some ''malloc error --- probably out of memory''
     else if code = bvgraph_call_io_error then
       Some ''io error --- probably file not found''
     else if code = bvgraph_call_unsupported then
       Some ''the call tried to perform an unsupported operation''
     else if code = bvgraph_load_error_filename_too_long then
       Some ''filename too long to store''
     else if code = bvgraph_load_error_buffer_too_small then
       Some ''one of the provided buffers was too small''
     else if code = bvgraph_property_file_error then
       Some ''the property file is not a valid property file format''
     else if code = bvgraph_property_file_compression_flag_error then
       Some ''the property file contained an unknown compression flag''
     else if code = bvgraph_call_io_error then
       Some ''the file version is not supported''
     else if code = bvgraph_vertex_out_of_range then
       Some ''vertex is out of range''
     else if code = bvgraph_requires_offsets then
       Some ''offsets are required''
     else if code = bvgraph_unsupported_coding then
       Some ''coding unsupported''
     else if code = 0 then
       Some ''the call succeeded''
     else
       Some ''unknown error'')"

section \<open>bvgraph.c: the graph descriptor\<close>

text \<open>
  The pointer view of an \<^verbatim>\<open>elias_fano_list\<close>: the addresses of its four heap blocks
  and the spill size, which is all \<^verbatim>\<open>eflist_free\<close> reads. An address is a natural
  number, 0 being \<^verbatim>\<open>NULL\<close>.
\<close>

record eflist_mem =
  efm_inventory :: nat
  efm_exact_spill :: nat
  efm_spill_size :: int
  efm_lower_A :: nat
  efm_upper_A :: nat

text \<open>
  \<^verbatim>\<open>bvgraph\<close>, with the fields bvgraph.c reads and writes in the functions below
  (the header that declares the struct is not among the sources).
\<close>

record bvgraph =
  bvg_filenamelen :: nat
  bvg_offset_step :: int
  bvg_zeta_k :: int
  bvg_window_size :: int
  bvg_min_interval_length :: int
  bvg_max_ref_count :: int
  bvg_n :: int
  bvg_m :: int
  bvg_memory :: nat
  bvg_memory_size :: nat
  bvg_memory_external :: int
  bvg_offsets :: nat
  bvg_offsets_external :: int
  bvg_use_ef :: int
  bvg_ef :: eflist_mem

text \<open>The descriptor after \<^verbatim>\<open>memset(g, 0, sizeof(bvgraph))\<close>.\<close>

definition bvgraph_zero :: bvgraph where
  "bvgraph_zero =
    \<lparr>bvg_filenamelen = 0, bvg_offset_step = 0, bvg_zeta_k = 0, bvg_window_size = 0,
     bvg_min_interval_length = 0, bvg_max_ref_count = 0, bvg_n = 0, bvg_m = 0,
     bvg_memory = 0, bvg_memory_size = 0, bvg_memory_external = 0,
     bvg_offsets = 0, bvg_offsets_external = 0, bvg_use_ef = 0,
     bvg_ef = \<lparr>efm_inventory = 0, efm_exact_spill = 0, efm_spill_size = 0,
               efm_lower_A = 0, efm_upper_A = 0\<rparr>\<rparr>"

definition set_defaults :: "bvgraph \<Rightarrow> bvgraph" where
  "set_defaults g =
    g\<lparr>bvg_zeta_k := 3, bvg_window_size := 7, bvg_min_interval_length := 3,
      bvg_max_ref_count := 3\<rparr>"

section \<open>bvgraph.c: loading\<close>

text \<open>
  What the load reads from outside bvgraph.c, as a record of answers: the filename
  limit (a macro of the missing header), the return code of \<^verbatim>\<open>parse_properties\<close> and
  the node and arc counts it stores, the answers of the file system for the graph file
  and the offsets file, the addresses \<^verbatim>\<open>malloc\<close> returns (0 when it fails), the
  return codes of \<^verbatim>\<open>bitfile_open\<close> and \<^verbatim>\<open>bvgraph_nonzero_iterator\<close>, and what
  the Elias-Fano build leaves behind: the return code of \<^verbatim>\<open>simple_select_build\<close> for
  each value of \<^verbatim>\<open>spill_var_len\<close> and the blocks of the list.
\<close>

record load_env =
  env_max_filename_size :: nat
  env_parse_properties :: int
  env_nodes :: int
  env_arcs :: int
  env_fsize :: int
  env_graphfilesize :: nat
  env_malloc_memory :: nat
  env_graph_fopen :: bool
  env_bytesread :: nat
  env_malloc_offsets :: nat
  env_malloc_offsets_again :: nat
  env_offsets_fopen :: bool
  env_bitfile_open :: int
  env_nonzero_iterator :: int
  env_simple_select_build :: "int \<Rightarrow> int"
  env_ef_blocks :: eflist_mem

text \<open>
  \<^verbatim>\<open>load_offset_from_file\<close>: allocates the offsets array, then 0 when the offsets
  file was read, \<open>bvgraph_call_io_error\<close> when the bit file could not be opened, 1 when
  there is no offsets file.
\<close>

definition load_offset_from_file :: "load_env \<Rightarrow> bvgraph \<Rightarrow> int \<times> bvgraph" where
  "load_offset_from_file env g =
    (let g = g\<lparr>bvg_offsets := env_malloc_offsets_again env\<rparr>
     in if env_offsets_fopen env then
          (if env_bitfile_open env \<noteq> 0 then (bvgraph_call_io_error, g) else (0, g))
        else (1, g))"

definition load_offset_online :: "load_env \<Rightarrow> bvgraph \<Rightarrow> int \<times> bvgraph" where
  "load_offset_online env g =
    (if env_nonzero_iterator env \<noteq> 0 then (env_nonzero_iterator env, g) else (0, g))"

text \<open>
  \<^verbatim>\<open>build_efcode\<close>: fills the list from the offsets file, or online when that
  fails, builds the select structure and turns a negative return code of
  \<^verbatim>\<open>simple_select_build\<close> into \<open>eflist_spill_too_small\<close>.
\<close>

definition build_efcode :: "load_env \<Rightarrow> bvgraph \<Rightarrow> int \<Rightarrow> int \<times> bvgraph" where
  "build_efcode env g spill_var_len =
    (let g = g\<lparr>bvg_ef := env_ef_blocks env\<rparr>;
         rval = env_simple_select_build env spill_var_len
     in if rval < 0 then (eflist_spill_too_small, g) else (0, g))"

text \<open>
  The three places of \<^verbatim>\<open>bvgraph_load_external\<close> that build the offsets, as the
  source has them: the return code is kept in \<^verbatim>\<open>rval\<close>, tested once, and not
  looked at again.
\<close>

definition load_dense_offsets :: "load_env \<Rightarrow> bvgraph \<Rightarrow> bvgraph" where
  "load_dense_offsets env g =
    (case load_offset_from_file env g of
       (rval, g) \<Rightarrow> if rval \<noteq> 0 then snd (load_offset_online env g) else g)"

definition load_ef_offsets :: "load_env \<Rightarrow> bvgraph \<Rightarrow> bvgraph" where
  "load_ef_offsets env g =
    (let g = g\<lparr>bvg_use_ef := 1, bvg_offsets_external := 1\<rparr>
     in case build_efcode env g 0 of
          (rval, g) \<Rightarrow> if rval = 0 then snd (build_efcode env g 1) else g)"

text \<open>
  \<^verbatim>\<open>bvgraph_load_external\<close>. \<open>gmemory\<close> and \<open>offsets\<close> are the addresses of the
  caller's buffers (0 for \<^verbatim>\<open>NULL\<close>), \<open>g0\<close> is the descriptor as the caller
  passes it. The result is the return code and the descriptor as the call leaves it.
  \<open>bvg_n\<close> is a vertex count and not negative, so the signed and the unsigned
  comparisons of the source agree on it.
\<close>

definition bvgraph_load_external ::
  "load_env \<Rightarrow> bvgraph \<Rightarrow> nat \<Rightarrow> int \<Rightarrow> nat \<Rightarrow> nat \<Rightarrow> nat \<Rightarrow> int \<times> bvgraph" where
  "bvgraph_load_external env g0 filenamelen offset_step gmemory gmemsize offsets =
    (if filenamelen > env_max_filename_size env - 1 then
       (bvgraph_load_error_filename_too_long, g0)
     else
       let g = bvgraph_zero\<lparr>bvg_filenamelen := filenamelen, bvg_offset_step := offset_step\<rparr>;
           g = set_defaults g;
           rval = env_parse_properties env;
           g = g\<lparr>bvg_n := env_nodes env, bvg_m := env_arcs env\<rparr>
       in if rval \<noteq> 0 then (rval, g)
          else if offset_step \<ge> 0 then
            (if env_fsize env \<noteq> 0 then (bvgraph_call_io_error, g)
             else if gmemory \<noteq> 0 \<and> gmemsize < env_graphfilesize env then
               (bvgraph_load_error_buffer_too_small, g)
             else
               let g = (if gmemory \<noteq> 0 then
                          g\<lparr>bvg_memory := gmemory, bvg_memory_size := gmemsize,
                            bvg_memory_external := 1\<rparr>
                        else
                          g\<lparr>bvg_memory_size := env_graphfilesize env,
                            bvg_memory := env_malloc_memory env\<rparr>)
               in if gmemory = 0 \<and> bvg_memory g = 0 then (bvgraph_call_out_of_memory, g)
                  else
                    let g = (if gmemory = 0 then g\<lparr>bvg_memory_external := 0\<rparr> else g)
                    in if \<not> env_graph_fopen env then (bvgraph_call_io_error, g)
                       else if env_bytesread env \<noteq> env_graphfilesize env then
                         (bvgraph_call_io_error, g)
                       else
                         let g = g\<lparr>bvg_use_ef := 0\<rparr>
                         in if offset_step = 1 then
                              (let g = (if offsets \<noteq> 0 then
                                          g\<lparr>bvg_offsets := offsets, bvg_offsets_external := 1\<rparr>
                                        else
                                          g\<lparr>bvg_offsets := env_malloc_offsets env,
                                            bvg_offsets_external := 0\<rparr>)
                               in (0, load_dense_offsets env g))
                            else if offset_step = 2 then (0, load_ef_offsets env g)
                            else if offset_step > 2 then
                              (let offset_in_mem = bvg_n g * 8
                               in if offset_in_mem > offset_step then
                                    (0, load_ef_offsets env g)
                                  else
                                    (let g = g\<lparr>bvg_use_ef := 0\<rparr>;
                                         g = load_dense_offsets env g
                                     in (0, g\<lparr>bvg_offsets_external := 0\<rparr>)))
                            else (0, g))
          else if offset_step = - 1 then (0, g\<lparr>bvg_memory_size := 0\<rparr>)
          else (0, load_ef_offsets env (g\<lparr>bvg_memory_size := 0\<rparr>)))"

section \<open>bvgraph.c: closing\<close>

text \<open>
  The heap, as far as closing is concerned, is the list of the addresses handed to
  \<^verbatim>\<open>free\<close> so far, oldest first; \<^verbatim>\<open>free(NULL)\<close> does nothing.
\<close>

definition free :: "nat \<Rightarrow> nat list \<Rightarrow> nat list" where
  "free p freed = (if p = 0 then freed else freed @ [p])"

definition eflist_free :: "eflist_mem \<Rightarrow> nat list \<Rightarrow> nat list" where
  "eflist_free ef freed =
    (let freed = free (efm_inventory ef) freed;
         freed = (if efm_spill_size ef > 0 then free (efm_exact_spill ef) freed else freed);
         freed = free (efm_lower_A ef) freed
     in free (efm_upper_A ef) freed)"

text \<open>
  \<^verbatim>\<open>bvgraph_close\<close>, statement by statement: the two conditional frees, the
  \<^verbatim>\<open>memset\<close>, and then the test of \<^verbatim>\<open>g->use_ef\<close> on the descriptor just
  cleared.
\<close>

definition bvgraph_close :: "bvgraph \<Rightarrow> nat list \<Rightarrow> int \<times> bvgraph \<times> nat list" where
  "bvgraph_close g freed =
    (let freed = (if bvg_memory_external g = 0 then free (bvg_memory g) freed else freed);
         freed = (if bvg_offsets_external g = 0 then free (bvg_offsets g) freed else freed);
         g = bvgraph_zero;
         freed = (if bvg_use_ef g \<noteq> 0 then eflist_free (bvg_ef g) freed else freed)
     in (0, g, freed))"

section \<open>bvgraph.c: the memory query\<close>

text \<open>
  \<^verbatim>\<open>eflist_size\<close>. \<open>build_last\<close> is the value of
  \<^verbatim>\<open>(uint64_t)(g->bits_per_link * g->m)\<close>, a product of doubles that is taken as
  given. The two logarithms are undefined for 0.
\<close>

definition eflist_size :: "bvgraph \<Rightarrow> nat \<Rightarrow> nat option" where
  "eflist_size g build_last =
    (let n = nat (bvg_n g);
         u = build_last + 1
     in if n \<noteq> 0 \<and> u div n = 0 then None
        else
          let s = (if n = 0 then 0 else ilog2 (u div n));
              rval = (s * n + 63) div 64 * 8;
              upper_length = n + drop_bit s build_last;
              rval = rval + (upper_length + 63) div 64 * 8;
              window = (if upper_length = 0 then 1
                        else (n * MAX_ONES_PER_INVENTORY + upper_length - 1) div upper_length)
          in if window = 0 then None
             else
               let log2_ones_per_inventory = ilog2 window;
                   ones_per_inventory = push_bit log2_ones_per_inventory 1;
                   inventory_size = (n + ones_per_inventory - 1) div ones_per_inventory;
                   rval = rval + inventory_size * 8
               in Some (rval + DEFAULT_SPILL_SIZE * 8))"

text \<open>
  \<^verbatim>\<open>bvgraph_required_memory\<close>. Each out-parameter is a flag (is the pointer
  non-null?) on the way in and an optional value on the way out: \<open>Some v\<close> when the
  call wrote \<open>v\<close>, \<open>None\<close> when it wrote nothing. The outer \<open>None\<close> is a write
  through a null pointer or an undefined logarithm. \<open>fsize_rval\<close> and
  \<open>graphfilesize\<close> are the answers of \<^verbatim>\<open>fsize\<close>.
\<close>

record required_memory =
  rm_rval :: int
  rm_gbuf :: "nat option"
  rm_offsetbuf :: "nat option"
  rm_efbuf :: "nat option"

definition bvgraph_required_memory ::
  "bvgraph \<Rightarrow> nat \<Rightarrow> int \<Rightarrow> nat \<Rightarrow> int \<Rightarrow> bool \<Rightarrow> bool \<Rightarrow> bool \<Rightarrow> required_memory option" where
  "bvgraph_required_memory g build_last fsize_rval graphfilesize offset_step gbuf offsetbuf efbuf =
    (let out = (\<lambda>p v. if p then Some v else None)
     in if offset_step \<le> - 1 then
          (if efbuf \<and> offset_step < - 1 then
             do {
               sz \<leftarrow> eflist_size g build_last;
               Some \<lparr>rm_rval = 0, rm_gbuf = out gbuf 0, rm_offsetbuf = out offsetbuf 0,
                     rm_efbuf = Some sz\<rparr>
             }
           else
             Some \<lparr>rm_rval = 0, rm_gbuf = out gbuf 0, rm_offsetbuf = out offsetbuf 0,
                   rm_efbuf = out efbuf 0\<rparr>)
        else if fsize_rval \<noteq> 0 then
          Some \<lparr>rm_rval = bvgraph_call_io_error, rm_gbuf = None, rm_offsetbuf = None,
                rm_efbuf = None\<rparr>
        else
          let r = \<lparr>rm_rval = 0, rm_gbuf = out gbuf graphfilesize,
                   rm_offsetbuf = out offsetbuf 0, rm_efbuf = out efbuf 0\<rparr>
          in if offset_step = 1 then
               Some (if offsetbuf then r\<lparr>rm_offsetbuf := Some (8 * nat (bvg_n g))\<rparr> else r)
             else if offset_step = 2 then
               (if efbuf then
                  do { sz \<leftarrow> eflist_size g build_last; Some (r\<lparr>rm_efbuf := Some sz\<rparr>) }
                else None)
             else if offset_step > 2 then
               (if offset_step * 2 ^ 20 \<ge> 8 * bvg_n g then
                  (if offsetbuf then Some (r\<lparr>rm_offsetbuf := Some (8 * nat (bvg_n g))\<rparr>) else None)
                else
                  (if efbuf then
                     do { sz \<leftarrow> eflist_size g build_last; Some (r\<lparr>rm_efbuf := Some sz\<rparr>) }
                   else None))
             else Some r)"

section \<open>Example inputs\<close>

text \<open>
  An environment in which every step of a load succeeds: a graph of 1000 vertices whose
  4096-byte graph file and offsets file are both readable, every \<^verbatim>\<open>malloc\<close> succeeds,
  and the Elias-Fano build ends with its four blocks at the addresses 201 to 204.
\<close>

definition env_ok :: load_env where
  "env_ok =
    \<lparr>env_max_filename_size = 1024, env_parse_properties = 0, env_nodes = 1000,
     env_arcs = 5000, env_fsize = 0, env_graphfilesize = 4096, env_malloc_memory = 100,
     env_graph_fopen = True, env_bytesread = 4096, env_malloc_offsets = 101,
     env_malloc_offsets_again = 102, env_offsets_fopen = True, env_bitfile_open = 0,
     env_nonzero_iterator = 0, env_simple_select_build = (\<lambda>v. 0),
     env_ef_blocks = \<lparr>efm_inventory = 201, efm_exact_spill = 202, efm_spill_size = 81920,
                      efm_lower_A = 203, efm_upper_A = 204\<rparr>\<rparr>"

text \<open>
  The same environment, except that \<^verbatim>\<open>simple_select_build\<close> finds the spill too small
  whatever \<^verbatim>\<open>spill_var_len\<close> is, there is no offsets file, and the iterator over the
  graph cannot be built.
\<close>

definition env_failing :: load_env where
  "env_failing =
    env_ok\<lparr>env_offsets_fopen := False, env_nonzero_iterator := - 2,
           env_simple_select_build := (\<lambda>v. - 2)\<rparr>"

text \<open>Freshly allocated memory that happens to hold zeros.\<close>

definition junk_zero :: "nat \<Rightarrow> 64 word" where
  "junk_zero i = 0"

text \<open>
  A list of capacity 2 and upper bound 10 as \<^verbatim>\<open>eflist_init\<close> lays it out (width 2,
  one word of lower bits, one word of upper bits), holding \<open>c\<close> elements whose lower
  bits are the word \<open>lo\<close> and whose upper bits are the word \<open>up\<close>.
\<close>

definition ef_cap2 :: "64 word \<Rightarrow> 64 word \<Rightarrow> nat \<Rightarrow> elias_fano_list" where
  "ef_cap2 lo up c =
    \<lparr>ef_size = 2, ef_s = 2, ef_lower = \<lparr>ba_s = 2, ba_A = [lo], ba_curr = c\<rparr>,
     ef_upper = \<lparr>ba_s = - 1, ba_A = [up], ba_curr = c\<rparr>, ef_bitarraylen = 4,
     ef_num_ones = 0, ef_log2_ones_per_inventory = 0, ef_ones_per_inventory = 0,
     ef_ones_per_inventory_mask = 0, ef_inventory_size = 0, ef_inventory = [],
     ef_exact_spill = map junk_zero [0..<DEFAULT_SPILL_SIZE],
     ef_spill_size = DEFAULT_SPILL_SIZE\<rparr>"

text \<open>
  Lists with a long gap in the upper bit array: 65664 bits in 1026 words, of which only
  the first word \<open>w0\<close> and the last word \<open>w1\<close> hold ones; \<open>n\<close> is the number of
  elements. The spill buffer has four cells.
\<close>

definition sparse_len :: nat where
  "sparse_len = 65664"

definition ef_sparse :: "64 word \<Rightarrow> 64 word \<Rightarrow> nat \<Rightarrow> elias_fano_list" where
  "ef_sparse w0 w1 n =
    \<lparr>ef_size = n, ef_s = 0, ef_lower = \<lparr>ba_s = 0, ba_A = [], ba_curr = n\<rparr>,
     ef_upper = \<lparr>ba_s = - 1, ba_A = w0 # replicate 1024 0 @ [w1], ba_curr = n\<rparr>,
     ef_bitarraylen = sparse_len, ef_num_ones = 0, ef_log2_ones_per_inventory = 0,
     ef_ones_per_inventory = 0, ef_ones_per_inventory_mask = 0, ef_inventory_size = 0,
     ef_inventory = [], ef_exact_spill = [0, 0, 0, 0], ef_spill_size = 4\<rparr>"

section \<open>Proof support: counting bits in parallel\<close>

text \<open>
  \<open>pcn a\<close> is the number of ones of the natural number \<open>a\<close>. \<open>packed W n x\<close> is
  the number that holds, in each of \<open>n\<close> fields of \<open>W\<close> bits, the number of ones of the
  corresponding field of \<open>x\<close>; \<open>fmask W n\<close> selects every other field of width
  \<open>W\<close>. One line of \<open>bit_count\<close> turns \<open>packed W (2 * n) x\<close> into
  \<open>packed (2 * W) n x\<close>.
\<close>

definition pcn :: "nat \<Rightarrow> nat" where
  "pcn a = card {n. bit a n}"

lemma bit_nat_concat:
  fixes a b :: nat
  assumes "a < 2 ^ w"
  shows "bit (a + 2 ^ w * b) n = (if n < w then bit a n else bit b (n - w))"
proof (cases "n < w")
  case True
  then obtain d where w: "w = n + Suc d" using less_iff_Suc_add by auto
  have "a + 2 ^ w * b = a + 2 * (2 ^ d * b) * 2 ^ n"
    by (simp add: w power_add)
  then have "(a + 2 ^ w * b) div 2 ^ n = a div 2 ^ n + 2 * (2 ^ d * b)"
    by (simp only: div_mult_self1 div_mult_self3) simp
  then show ?thesis using True by (simp add: bit_iff_odd)
next
  case False
  then obtain d where n: "n = w + d" using le_Suc_ex not_less by blast
  have "(a + 2 ^ w * b) div 2 ^ n = ((a + 2 ^ w * b) div 2 ^ w) div 2 ^ d"
    by (simp add: n power_add div_mult2_eq)
  also have "\<dots> = b div 2 ^ d" using assms by simp
  finally show ?thesis using False by (simp add: bit_iff_odd n)
qed

lemma bit_nat_lt:
  fixes a :: nat
  assumes "a < 2 ^ w" and "bit a n"
  shows "n < w"
  using assms by (metis bit_take_bit_iff take_bit_nat_eq_self)

lemma finite_bits_nat: "finite {n. bit (a::nat) n}"
proof -
  have "{n. bit a n} \<subseteq> {..<a}"
    using bit_nat_lt [of a a] by auto
  then show ?thesis by (rule finite_subset) simp
qed

lemma pcn_concat:
  assumes "a < 2 ^ w"
  shows "pcn (a + 2 ^ w * b) = pcn a + pcn b"
proof -
  have a_lt: "bit a n \<Longrightarrow> n < w" for n
    using assms by (metis bit_take_bit_iff take_bit_nat_eq_self)
  have "{n. bit (a + 2 ^ w * b) n} = {n. bit a n} \<union> (\<lambda>n. n + w) ` {n. bit b n}"
  proof (rule set_eqI)
    fix n
    show "n \<in> {n. bit (a + 2 ^ w * b) n} \<longleftrightarrow> n \<in> {n. bit a n} \<union> (\<lambda>n. n + w) ` {n. bit b n}"
    proof (cases "n < w")
      case True
      then show ?thesis using assms by (auto simp: bit_nat_concat)
    next
      case False
      then have "n = (n - w) + w" by simp
      then show ?thesis using assms False a_lt
        by (auto simp: bit_nat_concat image_iff)
    qed
  qed
  moreover have "{n. bit a n} \<inter> (\<lambda>n. n + w) ` {n. bit b n} = {}"
    using a_lt by fastforce
  moreover have "card ((\<lambda>n. n + w) ` {n. bit b n}) = card {n. bit b n}"
    by (rule card_image) (simp add: inj_on_def)
  ultimately show ?thesis
    by (simp add: pcn_def card_Un_disjoint finite_bits_nat)
qed

lemma pcn_le:
  assumes "a < 2 ^ w"
  shows "pcn a \<le> w"
proof -
  have "{n. bit a n} \<subseteq> {..<w}"
    using assms by (metis (mono_tags, lifting) bit_take_bit_iff take_bit_nat_eq_self lessThan_iff mem_Collect_eq subsetI)
  then have "card {n. bit a n} \<le> card {..<w}"
    by (intro card_mono) auto
  then show ?thesis by (simp add: pcn_def)
qed


fun packed :: "nat \<Rightarrow> nat \<Rightarrow> nat \<Rightarrow> nat" where
  "packed W 0 x = 0"
| "packed W (Suc n) x = pcn (x mod 2 ^ W) + 2 ^ W * packed W n (x div 2 ^ W)"

fun fmask :: "nat \<Rightarrow> nat \<Rightarrow> nat" where
  "fmask W 0 = 0"
| "fmask W (Suc n) = (2 ^ W - 1) + 2 ^ (2 * W) * fmask W n"

lemma and_nat_concat:
  fixes a b c d :: nat
  assumes "a < 2 ^ k" and "c < 2 ^ k"
  shows "(a + 2 ^ k * b) AND (c + 2 ^ k * d) = (a AND c) + 2 ^ k * (b AND d)"
proof -
  have "take_bit k (a AND c) = a AND c"
    using assms by (simp add: take_bit_and take_bit_nat_eq_self)
  then have ac: "a AND c < 2 ^ k"
    by (metis take_bit_nat_less_exp)
  show ?thesis
    by (rule bit_eqI) (simp add: bit_and_iff bit_nat_concat assms ac)
qed

lemma low_and:
  fixes a b :: nat
  assumes "a < 2 ^ W"
  shows "(a + 2 ^ W * b) AND (2 ^ W - 1) = a"
proof -
  have "(a + 2 ^ W * b) AND mask W = take_bit W (a + 2 ^ W * b)"
    by (simp only: take_bit_eq_mask)
  also have "\<dots> = (a + 2 ^ W * b) mod 2 ^ W"
    by (simp only: take_bit_eq_mod)
  also have "\<dots> = a" using assms by simp
  finally show ?thesis by (simp only: mask_eq_exp_minus_1)
qed

lemma W_lt_pow: "(W::nat) < 2 ^ W"
  by (rule less_exp)

lemma packed_lt:
  assumes "0 < W"
  shows "packed W n x < 2 ^ (W * n)"
proof (induction n arbitrary: x)
  case 0
  then show ?case by simp
next
  case (Suc n)
  have "pcn (x mod 2 ^ W) \<le> W" by (rule pcn_le) simp
  then have c: "pcn (x mod 2 ^ W) < 2 ^ W" using W_lt_pow [of W] by (rule le_less_trans)
  have "packed W n (x div 2 ^ W) + 1 \<le> 2 ^ (W * n)" using Suc [of "x div 2 ^ W"] by simp
  then have "2 ^ W * (packed W n (x div 2 ^ W) + 1) \<le> 2 ^ W * 2 ^ (W * n)"
    by (rule mult_le_mono2)
  then show ?case using c by (simp add: power_add)
qed

lemma swar_step:
  assumes "0 < W"
  shows "(packed W (2 * n) x AND fmask W n) + (drop_bit W (packed W (2 * n) x) AND fmask W n)
         = packed (2 * W) n x"
proof (induction n arbitrary: x)
  case 0
  then show ?case by simp
next
  case (Suc n)
  define c0 where "c0 = pcn (x mod 2 ^ W)"
  define c1 where "c1 = pcn ((x div 2 ^ W) mod 2 ^ W)"
  define x' where "x' = x div 2 ^ W div 2 ^ W"
  define Y' where "Y' = packed W (2 * n) x'"
  define M' where "M' = fmask W n"
  have "c0 \<le> W" unfolding c0_def by (rule pcn_le) simp
  then have c0: "c0 < 2 ^ W" using W_lt_pow [of W] by (rule le_less_trans)
  have "c1 \<le> W" unfolding c1_def by (rule pcn_le) simp
  then have c1: "c1 < 2 ^ W" using W_lt_pow [of W] by (rule le_less_trans)
  have P: "2 ^ (2 * W) = (2::nat) ^ W * 2 ^ W" by (simp add: power_add mult_2)
  have Y: "packed W (2 * Suc n) x = c0 + 2 ^ W * (c1 + 2 ^ W * Y')"
    by (simp add: c0_def c1_def Y'_def x'_def)
  have lo: "c0 + 2 ^ W * c1 < 2 ^ (2 * W)"
  proof -
    have "c1 + 1 \<le> 2 ^ W" using c1 by simp
    then have "2 ^ W * (c1 + 1) \<le> 2 ^ W * 2 ^ W" by (rule mult_le_mono2)
    then show ?thesis using c0 by (simp add: P)
  qed
  have "(2::nat) ^ W \<le> 2 ^ (2 * W)" by (rule power_increasing) simp_all
  then have m0: "(2::nat) ^ W - 1 < 2 ^ (2 * W)"
    by (metis diff_less le_less_trans less_imp_diff_less less_one linorder_not_less
        order_le_less zero_less_numeral zero_less_power)
  have A1: "packed W (2 * Suc n) x AND fmask W (Suc n) = c0 + 2 ^ (2 * W) * (Y' AND M')"
  proof -
    have "packed W (2 * Suc n) x = (c0 + 2 ^ W * c1) + 2 ^ (2 * W) * Y'"
      unfolding Y P by (simp add: algebra_simps)
    then have "packed W (2 * Suc n) x AND fmask W (Suc n)
        = ((c0 + 2 ^ W * c1) AND (2 ^ W - 1)) + 2 ^ (2 * W) * (Y' AND M')"
      using and_nat_concat [OF lo m0] by (simp add: M'_def)
    moreover have "(c0 + 2 ^ W * c1) AND (2 ^ W - 1) = c0"
      using c0 by (rule low_and)
    ultimately show ?thesis by simp
  qed
  have A2: "drop_bit W (packed W (2 * Suc n) x) AND fmask W (Suc n)
      = c1 + 2 ^ (2 * W) * (drop_bit W Y' AND M')"
  proof -
    define q where "q = Y' div 2 ^ W"
    define r where "r = Y' mod 2 ^ W"
    have Y'eq: "Y' = r + 2 ^ W * q" by (simp add: q_def r_def)
    have r: "r < 2 ^ W" by (simp add: r_def)
    have "drop_bit W (packed W (2 * Suc n) x) = c1 + 2 ^ W * Y'"
      unfolding Y using c0 by (simp add: drop_bit_eq_div)
    also have "\<dots> = (c1 + 2 ^ W * r) + 2 ^ (2 * W) * q"
      unfolding P Y'eq by (simp add: algebra_simps)
    finally have D: "drop_bit W (packed W (2 * Suc n) x)
        = (c1 + 2 ^ W * r) + 2 ^ (2 * W) * q" .
    have lo2: "c1 + 2 ^ W * r < 2 ^ (2 * W)"
    proof -
      have "r + 1 \<le> 2 ^ W" using r by simp
      then have "2 ^ W * (r + 1) \<le> 2 ^ W * 2 ^ W" by (rule mult_le_mono2)
      then show ?thesis using c1 by (simp add: P)
    qed
    have "(c1 + 2 ^ W * r) AND (2 ^ W - 1) = c1"
      using c1 by (rule low_and)
    then have "drop_bit W (packed W (2 * Suc n) x) AND fmask W (Suc n)
        = c1 + 2 ^ (2 * W) * (q AND M')"
      unfolding D using and_nat_concat [OF lo2 m0] by (simp add: M'_def)
    then show ?thesis by (simp add: q_def drop_bit_eq_div)
  qed
  have IH: "(Y' AND M') + (drop_bit W Y' AND M') = packed (2 * W) n x'"
    unfolding Y'_def M'_def by (rule Suc.IH)
  have x': "x div 2 ^ (2 * W) = x'"
    unfolding P x'_def by (simp add: div_mult2_eq)
  have "x mod 2 ^ (2 * W) = x mod 2 ^ W + 2 ^ W * ((x div 2 ^ W) mod 2 ^ W)"
    unfolding P by (simp add: mod_mult2_eq)
  then have pc: "pcn (x mod 2 ^ (2 * W)) = c0 + c1"
    unfolding c0_def c1_def by (simp add: pcn_concat)
  have "(packed W (2 * Suc n) x AND fmask W (Suc n))
      + (drop_bit W (packed W (2 * Suc n) x) AND fmask W (Suc n))
      = c0 + c1 + 2 ^ (2 * W) * ((Y' AND M') + (drop_bit W Y' AND M'))"
    unfolding A1 A2 by (simp add: algebra_simps)
  also have "\<dots> = packed (2 * W) (Suc n) x"
    unfolding IH by (simp add: pc x')
  finally show ?case .
qed

lemma packed_bits:
  assumes "x < 2 ^ n"
  shows "packed 1 n x = x"
  using assms
proof (induction n arbitrary: x)
  case 0
  then show ?case by simp
next
  case (Suc n)
  have "x div 2 < 2 ^ n" using Suc.prems by simp
  then have "packed 1 n (x div 2) = x div 2" by (rule Suc.IH)
  moreover have "pcn (x mod 2) = x mod 2"
  proof (cases "x mod 2 = 0")
    case True
    then show ?thesis by (simp add: pcn_def)
  next
    case False
    then have "x mod 2 = 1" by simp
    moreover have "{n. bit (1::nat) n} = {0}" by (auto simp: bit_Suc_0_iff)
    ultimately show ?thesis by (simp add: pcn_def)
  qed
  ultimately show ?case by simp
qed

lemma packed_one:
  assumes "x < 2 ^ W"
  shows "packed W 1 x = pcn x"
  using assms by (simp add: numeral_eq_Suc)

lemma sdrop_mask:
  fixes x m :: "64 word"
  assumes "\<And>n. bit m n \<Longrightarrow> n + k < 64"
  shows "signed_drop_bit k x AND m = drop_bit k x AND m"
proof (rule bit_word_eqI)
  fix n
  assume "n < LENGTH(64)"
  show "bit (signed_drop_bit k x AND m) n = bit (drop_bit k x AND m) n"
    using assms [of n] by (auto simp: bit_simps)
qed

lemma word_swar_step:
  fixes x m :: "64 word"
  assumes x: "unat x = packed W (2 * n) X"
    and m: "unat m = fmask W n"
    and W: "0 < W" "W \<le> 64"
    and n: "2 * W * n = 64"
    and top: "drop_bit (64 - W) m = 0"
  shows "unat ((x AND m) + (signed_drop_bit W x AND m)) = packed (2 * W) n X"
proof -
  have bitm: "j + W < 64" if "bit m j" for j
  proof (rule ccontr)
    assume "\<not> j + W < 64"
    then have "j = (64 - W) + (j - (64 - W))" using W by simp
    then have "bit (drop_bit (64 - W) m) (j - (64 - W))"
      using that by (simp add: bit_drop_bit_eq)
    then show False by (simp add: top)
  qed
  have sd: "signed_drop_bit W x AND m = drop_bit W x AND m"
    by (rule sdrop_mask) (rule bitm)
  have a: "unat (x AND m) = packed W (2 * n) X AND fmask W n"
    by (simp add: unsigned_and_eq x m)
  have b: "unat (drop_bit W x AND m) = drop_bit W (packed W (2 * n) X) AND fmask W n"
    by (simp add: unsigned_and_eq unat_drop_bit_eq x m)
  have s: "unat (x AND m) + unat (drop_bit W x AND m) = packed (2 * W) n X"
    unfolding a b using W(1) by (rule swar_step)
  have "packed (2 * W) n X < 2 ^ (2 * W * n)"
    by (rule packed_lt) (use W in simp)
  then have "unat (x AND m) + unat (drop_bit W x AND m) < 2 ^ LENGTH(64)"
    unfolding s n by simp
  then have "unat ((x AND m) + (drop_bit W x AND m)) = unat (x AND m) + unat (drop_bit W x AND m)"
    by (simp only: unat_add_lem)
  then show ?thesis by (simp only: sd s)
qed

lemma fmask_numeral:
  "fmask W (numeral k) = (2 ^ W - 1) + 2 ^ (2 * W) * fmask W (pred_numeral k)"
  by (simp add: numeral_eq_Suc)

lemma unat_m1: "unat m1 = fmask 1 32"
  by (simp add: m1_def fmask_numeral)

lemma unat_m2: "unat m2 = fmask 2 16"
  by (simp add: m2_def fmask_numeral)

lemma unat_m4: "unat m4 = fmask 4 8"
  by (simp add: m4_def fmask_numeral)

lemma unat_m8: "unat m8 = fmask 8 4"
  by (simp add: m8_def fmask_numeral)

lemma unat_m16: "unat m16 = fmask 16 2"
  by (simp add: m16_def fmask_numeral)

lemma unat_m32: "unat m32 = fmask 32 1"
  by (simp add: m32_def fmask_numeral)

lemma bit_count_unat:
  "unat (bit_count x) = pcn (unat x)"
proof -
  define x1 where "x1 = (x AND m1) + (signed_drop_bit 1 x AND m1)"
  define x2 where "x2 = (x1 AND m2) + (signed_drop_bit 2 x1 AND m2)"
  define x3 where "x3 = (x2 AND m4) + (signed_drop_bit 4 x2 AND m4)"
  define x4 where "x4 = (x3 AND m8) + (signed_drop_bit 8 x3 AND m8)"
  define x5 where "x5 = (x4 AND m16) + (signed_drop_bit 16 x4 AND m16)"
  define x6 where "x6 = (x5 AND m32) + (signed_drop_bit 32 x5 AND m32)"
  have lt: "unat x < 2 ^ 64" using unsigned_less [of x] by simp
  have p0: "unat x = packed 1 (2 * 32) (unat x)"
    using packed_bits [OF lt] by simp
  have p1: "unat x1 = packed (2 * 1) 32 (unat x)"
    unfolding x1_def by (rule word_swar_step [OF p0 unat_m1]) (simp_all add: m1_def)
  have p2: "unat x2 = packed (2 * 2) 16 (unat x)"
    unfolding x2_def by (rule word_swar_step [OF _ unat_m2]) (simp_all add: m2_def p1)
  have p3: "unat x3 = packed (2 * 4) 8 (unat x)"
    unfolding x3_def by (rule word_swar_step [OF _ unat_m4]) (simp_all add: m4_def p2)
  have p4: "unat x4 = packed (2 * 8) 4 (unat x)"
    unfolding x4_def by (rule word_swar_step [OF _ unat_m8]) (simp_all add: m8_def p3)
  have p5: "unat x5 = packed (2 * 16) 2 (unat x)"
    unfolding x5_def by (rule word_swar_step [OF _ unat_m16]) (simp_all add: m16_def p4)
  have p6: "unat x6 = packed (2 * 32) 1 (unat x)"
    unfolding x6_def by (rule word_swar_step [OF _ unat_m32]) (simp_all add: m32_def p5)
  have v: "unat x6 = pcn (unat x)"
    unfolding p6 using packed_one [of "unat x" 64] lt by simp
  have "pcn (unat x) \<le> 64" using lt by (rule pcn_le)
  then have small: "unat x6 < 2 ^ 32" unfolding v by simp
  have "bit_count x = ucast x6"
    by (simp add: bit_count_def Let_def x1_def x2_def x3_def x4_def x5_def x6_def)
  then have "unat (bit_count x) = take_bit 32 (unat x6)"
    by (simp add: unsigned_ucast_eq)
  also have "\<dots> = unat x6" using small by (simp add: take_bit_nat_eq_self)
  finally show ?thesis by (simp add: v)
qed

lemma popcount_card: "popcount x = card {n. bit x n}"
proof -
  have "{n. bit x n} = set (filter (bit x) [0..<64])"
    by (auto dest: bit_imp_le_length)
  moreover have "distinct (filter (bit x) [0..<64])"
    by simp
  ultimately show ?thesis
    by (simp only: popcount_def distinct_card)
qed

lemma pcn_unat: "pcn (unat (x :: 64 word)) = card {n. bit x n}"
  by (simp add: pcn_def bit_unsigned_iff)

section \<open>Proof support: evaluation on concrete inputs\<close>

lemma ilog2_numeral:
  "ilog2 (numeral k) = (if numeral k < (2::nat) then 0 else 1 + ilog2 (numeral k div 2))"
  "ilog2 0 = 0" "ilog2 1 = 0" "ilog2 (Suc 0) = 0"
  by (simp_all add: ilog2.simps)

lemma upt_eval:
  "[0..<numeral n] = 0 # [Suc 0..<numeral n]"
  "[Suc 0..<numeral n] = (if Suc 0 < (numeral n :: nat) then Suc 0 # [2..<numeral n] else [])"
  "Suc (Suc 0) = 2"
proof -
  show "[0..<numeral n] = 0 # [Suc 0..<numeral n]"
    by (rule upt_conv_Cons) simp
  show "[Suc 0..<numeral n] = (if Suc 0 < (numeral n :: nat) then Suc 0 # [2..<numeral n] else [])"
  proof (cases "Suc 0 < (numeral n :: nat)")
    case True
    then have "[Suc 0..<numeral n] = Suc 0 # [Suc (Suc 0)..<numeral n]"
      by (rule upt_conv_Cons)
    then show ?thesis using True by (simp only: numeral_2_eq_2 if_True)
  next
    case False
    then show ?thesis by simp
  qed
  show "Suc (Suc 0) = 2"
    by (simp only: numeral_2_eq_2)
qed

lemmas eflist_eval_defs =
  eflist_built_def eflist_init_def eflist_zero_def bit_array_create_def
  eflist_add_def bit_array_insert_def bit_array_setbit_def shl64_def shr64_def
  simple_select_build_def select_window_def select_params_def pass1_body_def pass2_body_def pass3_body_def
  pass1_one_def pass2_one_def pass3_one_def
  bit_array_getbitk_def get_bitk_def MAX_ONES_PER_INVENTORY_def MAX_SPAN_def
  select_rank_def eflist_lookup_def bit_array_get_def ilog2_numeral upt_eval

lemmas load_defs =
  bvgraph_load_external_def load_ef_offsets_def load_dense_offsets_def build_efcode_def
  load_offset_from_file_def load_offset_online_def set_defaults_def bvgraph_zero_def

section \<open>Proof support: adding elements\<close>

lemma nondecreasing_check_False:
  assumes "i + 1 < length arr" and "arr ! (i + 1) < arr ! i"
  shows "\<not> nondecreasing_check arr"
  using assms
proof (induction arr arbitrary: i rule: nondecreasing_check.induct)
  case (1 x y ys)
  show ?case
  proof (cases i)
    case 0
    then show ?thesis using "1.prems" by simp
  next
    case (Suc j)
    then have j: "j + 1 < length (y # ys)" "(y # ys) ! (j + 1) < (y # ys) ! j"
      using "1.prems" by simp_all
    show ?thesis
    proof (cases "x \<le> y")
      case True
      then have "\<not> nondecreasing_check (y # ys)"
        using "1.IH" [of j] j by blast
      then show ?thesis by simp
    next
      case False
      then show ?thesis by simp
    qed
  qed
qed simp_all

lemma bit_array_insert_defined:
  assumes s: "ba_s ptr = int s"
    and room: "(k + 1) * s \<le> 64 * length (ba_A ptr)"
  shows "\<exists>ptr'. bit_array_insert ptr num k = Some ptr' \<and> ba_curr ptr' = ba_curr ptr"
proof (cases "s = 0")
  case True
  then show ?thesis using s by (simp add: bit_array_insert_def)
next
  case False
  define index where "index = k * s div 64"
  define offset where "offset = (k * s) mod 64"
  have ks: "k * s = index * 64 + offset"
    by (simp add: index_def offset_def)
  have r: "index * 64 + offset + s \<le> 64 * length (ba_A ptr)"
    using room ks by (simp add: algebra_simps)
  have o: "offset < 64" by (simp add: offset_def)
  show ?thesis
  proof (cases "offset + s \<le> 64")
    case True
    have "index < length (ba_A ptr)" using r False by simp
    then show ?thesis using False s True
      by (simp add: bit_array_insert_def Let_def flip: index_def offset_def)
  next
    case F: False
    have "index + 1 < length (ba_A ptr)" using r F by simp
    then show ?thesis using False s F
      by (simp add: bit_array_insert_def Let_def flip: index_def offset_def)
  qed
qed

lemma bit_array_setbit_defined:
  assumes "ba_s ptr < 0" and "0 \<le> k" and "k < 64 * int (length (ba_A ptr))"
  shows "\<exists>ptr'. bit_array_setbit ptr k = Some ptr'"
proof -
  have "drop_bit 6 k = k div 64" by (simp add: drop_bit_eq_div)
  moreover have "0 \<le> k div 64" using assms(2) by simp
  moreover have "k div 64 < int (length (ba_A ptr))" using assms(3) by simp
  ultimately show ?thesis using assms(1)
    by (simp add: bit_array_setbit_def Let_def)
qed

section \<open>Proof support: loops over a bit array with a long gap\<close>

lemma for_loop_append:
  "for_loop (xs @ ys) body st =
    (case for_loop xs body st of None \<Rightarrow> None | Some st' \<Rightarrow> for_loop ys body st')"
  by (induction xs arbitrary: st) (simp_all split: option.split)

lemma for_loop_skip:
  assumes "\<And>i. i \<in> set ks \<Longrightarrow> body i st = Some st"
  shows "for_loop ks body st = Some st"
  using assms by (induction ks) simp_all

lemma pass_bodies_zero:
  assumes "bit_array_getbitk (ef_upper ef) i = Some 0"
  shows "pass1_body ef i st = Some st" "pass2_body ef i st = Some st" "pass3_body ef i st = Some st"
  using assms by (simp_all add: pass1_body_def pass2_body_def pass3_body_def)

text \<open>The words 1 to 1024 of an array of 1026 words are zero.\<close>

definition gap_zero :: "64 word list \<Rightarrow> bool" where
  "gap_zero A \<longleftrightarrow> length A = 1026 \<and> (\<forall>j. 1 \<le> j \<and> j < 1025 \<longrightarrow> A ! j = 0)"

lemma gap_zero_sparse: "gap_zero (w0 # replicate 1024 0 @ [w1])"
proof -
  have "(w0 # replicate 1024 0 @ [w1]) ! j = 0" if "1 \<le> j" "j < 1025" for j
  proof -
    have "j \<noteq> 0" using that(1) by simp
    then obtain k where k: "j = Suc k" by (cases j) simp_all
    then have "k < 1024" using that(2) by simp
    then show ?thesis by (simp add: k nth_append)
  qed
  then show ?thesis by (simp add: gap_zero_def)
qed

lemma sparse_gap:
  assumes "gap_zero A" and "64 \<le> i" and "i < 65600"
  shows "get_bitk A i = Some 0"
proof -
  have d: "drop_bit 6 i = i div 64" by (simp add: drop_bit_eq_div)
  have "1 \<le> i div 64" using assms(2) by simp
  moreover have lt: "i div 64 < 1025" using assms(3) by simp
  ultimately have "A ! (i div 64) = 0" using assms(1) by (simp add: gap_zero_def)
  moreover have "i div 64 < length A"
    using lt assms(1) by (simp add: gap_zero_def)
  ultimately show ?thesis
    by (simp add: get_bitk_def d Let_def)
qed

lemma upt_sparse_len: "[0..<sparse_len] = [0..<64] @ [64..<65600] @ [65600..<65664]"
proof -
  have "[0..<65664] = [0..<64] @ [64..<65664]"
    using upt_add_eq_append [of 0 64 65600] by (simp del: upt_rec_numeral)
  moreover have "[64..<65664] = [64..<65600] @ [65600..<65664]"
    using upt_add_eq_append [of 64 65600 64] by (simp del: upt_rec_numeral)
  ultimately show ?thesis by (simp only: sparse_len_def)
qed

lemma for_loop_gap:
  assumes z: "\<And>i st'. 64 \<le> i \<Longrightarrow> i < 65600 \<Longrightarrow> body i st' = Some st'"
  shows "for_loop [0..<sparse_len] body st =
    (case for_loop [0..<64] body st of None \<Rightarrow> None
     | Some st' \<Rightarrow> for_loop [65600..<65664] body st')"
proof -
  have "for_loop [64..<65600] body st' = Some st'" for st'
    by (rule for_loop_skip) (rule z, simp_all del: upt_rec_numeral)
  then show ?thesis
    by (simp only: upt_sparse_len for_loop_append option.case split: option.split)
qed

lemma for_loop_sparse:
  assumes "gap_zero (ba_A (ef_upper ef))" and "ba_s (ef_upper ef) < 0"
  shows "for_loop [0..<sparse_len] (pass1_body ef) st =
      (case for_loop [0..<64] (pass1_body ef) st of None \<Rightarrow> None
       | Some st' \<Rightarrow> for_loop [65600..<65664] (pass1_body ef) st')"
    and "for_loop [0..<sparse_len] (pass2_body ef) st =
      (case for_loop [0..<64] (pass2_body ef) st of None \<Rightarrow> None
       | Some st' \<Rightarrow> for_loop [65600..<65664] (pass2_body ef) st')"
    and "for_loop [0..<sparse_len] (pass3_body ef) st =
      (case for_loop [0..<64] (pass3_body ef) st of None \<Rightarrow> None
       | Some st' \<Rightarrow> for_loop [65600..<65664] (pass3_body ef) st')"
proof -
  have g: "bit_array_getbitk (ef_upper ef) i = Some 0" if "64 \<le> i" "i < 65600" for i
    using sparse_gap [OF assms(1) that] assms(2) by (simp add: bit_array_getbitk_def)
  show "for_loop [0..<sparse_len] (pass1_body ef) st =
      (case for_loop [0..<64] (pass1_body ef) st of None \<Rightarrow> None
       | Some st' \<Rightarrow> for_loop [65600..<65664] (pass1_body ef) st')"
    by (rule for_loop_gap) (rule pass_bodies_zero, rule g)
  show "for_loop [0..<sparse_len] (pass2_body ef) st =
      (case for_loop [0..<64] (pass2_body ef) st of None \<Rightarrow> None
       | Some st' \<Rightarrow> for_loop [65600..<65664] (pass2_body ef) st')"
    by (rule for_loop_gap) (rule pass_bodies_zero, rule g)
  show "for_loop [0..<sparse_len] (pass3_body ef) st =
      (case for_loop [0..<64] (pass3_body ef) st of None \<Rightarrow> None
       | Some st' \<Rightarrow> for_loop [65600..<65664] (pass3_body ef) st')"
    by (rule for_loop_gap) (rule pass_bodies_zero, rule g)
qed

lemma sparse_len_facts:
  "(9 * MAX_ONES_PER_INVENTORY + sparse_len - 1) div sparse_len = 2"
  "(2 * MAX_ONES_PER_INVENTORY + sparse_len - 1) div sparse_len = 1"
  "(9 * MAX_ONES_PER_INVENTORY + sparse_len - Suc 0) div sparse_len = 2"
  "(2 * MAX_ONES_PER_INVENTORY + sparse_len - Suc 0) div sparse_len = 1"
  "sparse_len \<noteq> 0" "word_of_nat sparse_len = (65664 :: 64 word)"
  by (simp_all add: sparse_len_def MAX_ONES_PER_INVENTORY_def)

lemmas sparse_eval =
  ef_sparse_def simple_select_build_def select_window_def select_params_def pass1_body_def pass2_body_def pass3_body_def
  pass1_one_def pass2_one_def pass3_one_def
  bit_array_getbitk_def get_bitk_def shl64_def MAX_SPAN_def upt_eval nth_append Let_def
  sparse_len_facts ilog2_numeral junk_zero_def for_loop_sparse gap_zero_sparse select_rank_def

section \<open>Proof support: the three loops of the select structure\<close>

text \<open>
  Each loop of \<^verbatim>\<open>simple_select_build\<close> acts only at the ones of the upper bit array, so
  a run over all positions is a run of the guarded block over the list of the ones. The
  first loop then leaves the position of the first one of every block in the inventory,
  the second leaves both arrays alone, and the third is described by the invariant
  \<open>pass3_inv\<close>: the counter \<open>d\<close> equals the number of ones spilled so far, every block
  below \<open>d\<close> has its negated spill index in the inventory and its ones in
  \<open>exact_spill\<close>, and \<open>d\<close> stands still from the first block on that spans less than
  \<open>MAX_SPAN\<close> bits.
\<close>

lemma for_loop_snoc:
  "for_loop (xs @ [x]) f st = Some st' \<longleftrightarrow>
    (\<exists>st''. for_loop xs f st = Some st'' \<and> f x st'' = Some st')"
  by (simp add: for_loop_append split: option.split)

lemma for_loop_guard:
  assumes body: "\<And>i st. body i st =
      (case g i of None \<Rightarrow> None | Some b \<Rightarrow> if b = (1::int) then h i st else Some st)"
    and run: "for_loop ks body st = Some st'"
  shows "for_loop (filter (\<lambda>i. g i = Some 1) ks) h st = Some st'"
  using run
proof (induction ks arbitrary: st)
  case Nil
  then show ?case by simp
next
  case (Cons i ks)
  from Cons.prems obtain st1 where s1: "body i st = Some st1" and r: "for_loop ks body st1 = Some st'"
    by (auto split: option.splits)
  show ?case
  proof (cases "g i = Some 1")
    case True
    then have "h i st = Some st1" using s1 by (simp add: body)
    then show ?thesis using True Cons.IH [OF r] by simp
  next
    case False
    then have "st1 = st" using s1 by (auto simp: body split: option.splits if_splits)
    then show ?thesis using False Cons.IH [OF r] by simp
  qed
qed

lemma pass_bodies_guard:
  "pass1_body ef i st = (case bit_array_getbitk (ef_upper ef) i of None \<Rightarrow> None
      | Some b \<Rightarrow> if b = 1 then pass1_one ef i st else Some st)"
  "pass2_body ef i st = (case bit_array_getbitk (ef_upper ef) i of None \<Rightarrow> None
      | Some b \<Rightarrow> if b = 1 then pass2_one ef i st else Some st)"
  "pass3_body ef i st = (case bit_array_getbitk (ef_upper ef) i of None \<Rightarrow> None
      | Some b \<Rightarrow> if b = 1 then pass3_one ef i st else Some st)"
  by (simp_all add: pass1_body_def pass2_body_def pass3_body_def split: option.split)

lemma and_mask_pow:
  fixes d :: nat
  shows "d AND (push_bit L 1 - 1) = d mod 2 ^ L"
proof -
  have "d AND mask L = take_bit L d" by (simp only: take_bit_eq_mask)
  then show ?thesis by (simp add: mask_eq_exp_minus_1 take_bit_eq_mod push_bit_eq_mult)
qed

lemma mult_pow_cases:
  fixes j k :: nat
  assumes "0 < q"
  shows "k * q < Suc j \<longleftrightarrow> k * q < j \<or> (j mod q = 0 \<and> k = j div q)"
proof -
  have "k * q = j \<longleftrightarrow> j mod q = 0 \<and> k = j div q"
    using assms by (auto simp: mod_eq_0_iff_dvd)
  then show ?thesis by (auto simp: less_Suc_eq)
qed

lemma pass1_run:
  assumes run: "for_loop xs (pass1_one ef) st0 = Some st"
    and d0: "sl_d st0 = 0"
    and mask: "ef_ones_per_inventory_mask ef = push_bit L 1 - 1"
    and log: "ef_log2_ones_per_inventory ef = L"
  shows "sl_d st = length xs \<and>
    length (sl_inventory st) = length (sl_inventory st0) \<and>
    sl_exact_spill st = sl_exact_spill st0 \<and>
    (\<forall>k. k * 2 ^ L < length xs \<longrightarrow>
       k < length (sl_inventory st) \<and> sl_inventory st ! k = word_of_nat (xs ! (k * 2 ^ L)))"
  using run
proof (induction xs arbitrary: st rule: rev_induct)
  case Nil
  then show ?case using d0 by simp
next
  case (snoc x xs)
  from snoc.prems obtain st1 where r1: "for_loop xs (pass1_one ef) st0 = Some st1"
    and step: "pass1_one ef x st1 = Some st"
    by (auto simp: for_loop_snoc)
  note IH = snoc.IH [OF r1]
  define j where "j = length xs"
  have d1: "sl_d st1 = j" using IH by (simp add: j_def)
  have len1: "length (sl_inventory st1) = length (sl_inventory st0)" using IH by simp
  have sp1: "sl_exact_spill st1 = sl_exact_spill st0" using IH by simp
  have IHk: "k < length (sl_inventory st1) \<and> sl_inventory st1 ! k = word_of_nat (xs ! (k * 2 ^ L))"
    if "k * 2 ^ L < j" for k
    using IH that unfolding j_def by blast
  have q: "(0::nat) < 2 ^ L" by simp
  have c: "(sl_d st1 AND ef_ones_per_inventory_mask ef = 0) = (j mod 2 ^ L = 0)"
    by (simp only: mask d1 and_mask_pow)
  have i: "drop_bit (ef_log2_ones_per_inventory ef) (sl_d st1) = j div 2 ^ L"
    by (simp only: log d1 drop_bit_eq_div)
  note step' = step [unfolded pass1_one_def c i Let_def]
  show ?case
  proof (cases "j mod 2 ^ L = 0")
    case True
    define idx where "idx = j div 2 ^ L"
    from step' True have idx: "idx < length (sl_inventory st1)"
      and st: "st = st1\<lparr>sl_inventory := (sl_inventory st1)[idx := word_of_nat x], sl_d := j + 1\<rparr>"
      by (auto simp: d1 idx_def split: if_splits)
    have "k < length (sl_inventory st) \<and> sl_inventory st ! k = word_of_nat ((xs @ [x]) ! (k * 2 ^ L))"
      if "k * 2 ^ L < Suc j" for k
    proof (cases "k = idx")
      case True
      then have "k * 2 ^ L = j"
        using \<open>j mod 2 ^ L = 0\<close> div_mult_mod_eq [of j "2 ^ L"] by (simp add: idx_def)
      then show ?thesis using True idx by (simp add: st j_def)
    next
      case False
      then have lt: "k * 2 ^ L < j"
        using that mult_pow_cases [OF q, of k j] by (simp add: idx_def)
      then show ?thesis using IHk [OF lt] False by (simp add: st j_def nth_append)
    qed
    then show ?thesis using len1 sp1 by (simp add: st j_def)
  next
    case False
    from step' False have st: "st = st1\<lparr>sl_d := j + 1\<rparr>"
      by (auto simp: d1 split: if_splits)
    have "k < length (sl_inventory st) \<and> sl_inventory st ! k = word_of_nat ((xs @ [x]) ! (k * 2 ^ L))"
      if "k * 2 ^ L < Suc j" for k
    proof -
      have lt: "k * 2 ^ L < j"
        using that False mult_pow_cases [OF q, of k j] by simp
      then show ?thesis using IHk [OF lt] by (simp add: st j_def nth_append)
    qed
    then show ?thesis using len1 sp1 by (simp add: st j_def)
  qed
qed

lemma pass2_one_frame:
  assumes "pass2_one ef i st = Some st'"
  shows "sl_inventory st' = sl_inventory st \<and> sl_exact_spill st' = sl_exact_spill st"
  using assms by (auto simp: pass2_one_def Let_def split: if_splits)

lemma pass2_run:
  assumes "for_loop xs (pass2_one ef) st = Some st'"
  shows "sl_inventory st' = sl_inventory st \<and> sl_exact_spill st' = sl_exact_spill st"
  using assms
proof (induction xs arbitrary: st)
  case Nil
  then show ?case by simp
next
  case (Cons x xs)
  then obtain st1 where "pass2_one ef x st = Some st1" and "for_loop xs (pass2_one ef) st1 = Some st'"
    by (auto split: option.splits)
  then show ?case using Cons.IH [of st1] pass2_one_frame [of ef x st st1] by simp
qed

definition spilled_block :: "64 word list \<Rightarrow> nat \<Rightarrow> bool" where
  "spilled_block inv1 k \<longleftrightarrow> MAX_SPAN \<le> inv1 ! (k + 1) - inv1 ! k"

definition pass3_inv ::
  "nat \<Rightarrow> 64 word list \<Rightarrow> 64 word list \<Rightarrow> nat list \<Rightarrow> select_locals \<Rightarrow> bool" where
  "pass3_inv L inv1 E0 xs st \<longleftrightarrow>
    sl_spilled st = int (sl_d st) \<and>
    sl_d st \<le> length xs \<and>
    length (sl_inventory st) = length inv1 \<and>
    length (sl_exact_spill st) = length E0 \<and>
    (\<forall>k. k * 2 ^ L < sl_d st \<longrightarrow> sl_inventory st ! k = - word_of_nat (k * 2 ^ L)) \<and>
    (\<forall>k. sl_d st \<le> k * 2 ^ L \<longrightarrow> sl_inventory st ! k = inv1 ! k) \<and>
    (\<forall>t. t < sl_d st \<longrightarrow> sl_exact_spill st ! t = word_of_nat (xs ! t)) \<and>
    (sl_d st mod 2 ^ L \<noteq> 0 \<longrightarrow> MAX_SPAN \<le> sl_span st) \<and>
    (sl_d st = length xs \<or>
     (sl_d st mod 2 ^ L = 0 \<and> \<not> spilled_block inv1 (sl_d st div 2 ^ L)))"

lemma pass3_step:
  assumes I: "pass3_inv L inv1 E0 xs st1"
    and step: "pass3_one ef x st1 = Some st"
    and mask: "ef_ones_per_inventory_mask ef = push_bit L 1 - 1"
    and log: "ef_log2_ones_per_inventory ef = L"
  shows "pass3_inv L inv1 E0 (xs @ [x]) st"
proof -
  define m where "m = sl_d st1"
  define idx where "idx = m div 2 ^ L"
  have q: "(0::nat) < 2 ^ L" by simp
  have sp: "sl_spilled st1 = int m" and mle: "m \<le> length xs"
    and leni: "length (sl_inventory st1) = length inv1"
    and lene: "length (sl_exact_spill st1) = length E0"
    using I by (simp_all add: pass3_inv_def m_def)
  have Ic: "sl_inventory st1 ! k = - word_of_nat (k * 2 ^ L)" if "k * 2 ^ L < m" for k
    using I that unfolding pass3_inv_def m_def by blast
  have Id: "sl_inventory st1 ! k = inv1 ! k" if "m \<le> k * 2 ^ L" for k
    using I that unfolding pass3_inv_def m_def by blast
  have Ie: "sl_exact_spill st1 ! t = word_of_nat (xs ! t)" if "t < m" for t
    using I that unfolding pass3_inv_def m_def by blast
  have Ih: "MAX_SPAN \<le> sl_span st1" if "m mod 2 ^ L \<noteq> 0"
    using I that unfolding pass3_inv_def m_def by blast
  have Ig: "m = length xs \<or> (m mod 2 ^ L = 0 \<and> \<not> spilled_block inv1 idx)"
    using I unfolding pass3_inv_def m_def idx_def by blast
  have c: "(sl_d st1 AND ef_ones_per_inventory_mask ef = 0) = (m mod 2 ^ L = 0)"
    by (simp only: mask m_def and_mask_pow)
  have i: "drop_bit (ef_log2_ones_per_inventory ef) (sl_d st1) = idx"
    by (simp only: log m_def idx_def drop_bit_eq_div)
  have c': "(m AND ef_ones_per_inventory_mask ef = 0) = (m mod 2 ^ L = 0)"
    by (simp only: mask and_mask_pow)
  note step' = step [unfolded pass3_one_def c i Let_def]
  show ?thesis
  proof (cases "m mod 2 ^ L = 0")
    case True
    have mi: "idx * 2 ^ L = m"
      using True div_mult_mod_eq [of m "2 ^ L"] by (simp add: idx_def)
    have r0: "sl_inventory st1 ! idx = inv1 ! idx"
      by (rule Id) (simp add: mi)
    have r1: "sl_inventory st1 ! Suc idx = inv1 ! Suc idx"
      by (rule Id) (simp add: mi [symmetric])
    define stA where "stA = st1\<lparr>sl_inventory_index := idx, sl_start := inv1 ! idx,
        sl_span := inv1 ! (idx + 1) - inv1 ! idx\<rparr>"
    show ?thesis
    proof (cases "spilled_block inv1 idx")
      case False
      then have lt: "inv1 ! (idx + 1) - inv1 ! idx < MAX_SPAN"
        by (simp add: spilled_block_def not_le)
      from step' True lt have st: "st = stA"
        by (auto simp: c i r0 r1 stA_def split: if_splits)
      have nth: "(xs @ [x]) ! t = xs ! t" if "t < m" for t
        using that mle by (simp add: nth_append)
      show ?thesis
        unfolding pass3_inv_def st
        using sp mle leni lene Ic Id Ie nth True False
        by (simp add: stA_def m_def [symmetric] idx_def [symmetric])
    next
      case B: True
      then have nlt: "\<not> inv1 ! (idx + 1) - inv1 ! idx < MAX_SPAN"
        by (simp add: spilled_block_def not_less)
      have mx: "m = length xs" using Ig B by blast
      from step' True nlt have b1: "idx < length (sl_inventory st1)"
        and b2: "m < length (sl_exact_spill st1)"
        and st: "st = stA\<lparr>sl_inventory := (sl_inventory st1)[idx := word_of_int (- int m)],
            sl_exact_spill := (sl_exact_spill st1)[m := word_of_nat x],
            sl_spilled := int m + 1, sl_d := m + 1\<rparr>"
        by (auto simp: c c' i r0 r1 stA_def sp m_def [symmetric] split: if_splits)
      have neg: "(word_of_int (- int m) :: 64 word) = - word_of_nat (idx * 2 ^ L)"
        by (simp add: mi)
      have Jc: "sl_inventory st ! k = - word_of_nat (k * 2 ^ L)" if "k * 2 ^ L < m + 1" for k
      proof (cases "k = idx")
        case True
        then show ?thesis using b1 neg by (simp add: st)
      next
        case False
        then have "k * 2 ^ L < m"
          using that mult_pow_cases [OF q, of k m] by (simp add: idx_def)
        then show ?thesis using Ic False by (simp add: st)
      qed
      have Jd: "sl_inventory st ! k = inv1 ! k" if "m + 1 \<le> k * 2 ^ L" for k
      proof -
        have "k \<noteq> idx" using that mi by auto
        moreover have "m \<le> k * 2 ^ L" using that by simp
        ultimately show ?thesis using Id by (simp add: st)
      qed
      have Je: "sl_exact_spill st ! t = word_of_nat ((xs @ [x]) ! t)" if "t < m + 1" for t
      proof (cases "t = m")
        case True
        then show ?thesis using b2 mx by (simp add: st)
      next
        case False
        then have "t < m" using that by simp
        then show ?thesis using Ie False mx by (simp add: st nth_append)
      qed
      have Jh: "MAX_SPAN \<le> sl_span st"
        using B by (simp add: st stA_def spilled_block_def)
      show ?thesis
        unfolding pass3_inv_def
        using Jc Jd Je Jh leni lene mx by (simp add: st stA_def)
    qed
  next
    case False
    have mx: "m = length xs" using Ig False by blast
    have nlt: "\<not> sl_span st1 < MAX_SPAN" using Ih [OF False] by (simp add: not_less)
    from step' False nlt have b2: "m < length (sl_exact_spill st1)"
      and st: "st = st1\<lparr>sl_exact_spill := (sl_exact_spill st1)[m := word_of_nat x],
          sl_spilled := int m + 1, sl_d := m + 1\<rparr>"
      by (auto simp: c c' i sp m_def [symmetric] split: if_splits)
    have Jc: "sl_inventory st ! k = - word_of_nat (k * 2 ^ L)" if "k * 2 ^ L < m + 1" for k
    proof -
      have "k * 2 ^ L < m"
        using that False mult_pow_cases [OF q, of k m] by simp
      then show ?thesis using Ic by (simp add: st)
    qed
    have Jd: "sl_inventory st ! k = inv1 ! k" if "m + 1 \<le> k * 2 ^ L" for k
      using Id [of k] that by (simp add: st)
    have Je: "sl_exact_spill st ! t = word_of_nat ((xs @ [x]) ! t)" if "t < m + 1" for t
    proof (cases "t = m")
      case True
      then show ?thesis using b2 mx by (simp add: st)
    next
      case F: False
      then have "t < m" using that by simp
      then show ?thesis using Ie F mx by (simp add: st nth_append)
    qed
    have Jh: "MAX_SPAN \<le> sl_span st"
      using Ih [OF False] by (simp add: st)
    show ?thesis
      unfolding pass3_inv_def
      using Jc Jd Je Jh leni lene mx by (simp add: st)
  qed
qed

lemma pass3_run:
  assumes run: "for_loop xs (pass3_one ef) st0 = Some st"
    and init: "sl_d st0 = 0" "sl_spilled st0 = 0" "sl_inventory st0 = inv1" "sl_exact_spill st0 = E0"
    and mask: "ef_ones_per_inventory_mask ef = push_bit L 1 - 1"
    and log: "ef_log2_ones_per_inventory ef = L"
  shows "pass3_inv L inv1 E0 xs st"
  using run
proof (induction xs arbitrary: st rule: rev_induct)
  case Nil
  then show ?case using init by (simp add: pass3_inv_def)
next
  case (snoc x xs)
  from snoc.prems obtain st1 where r1: "for_loop xs (pass3_one ef) st0 = Some st1"
    and step: "pass3_one ef x st1 = Some st"
    by (auto simp: for_loop_snoc)
  show ?case
    by (rule pass3_step [OF snoc.IH [OF r1] step mask log])
qed


lemma select_params_fields:
  "ef_ones_per_inventory_mask (select_params ef n junk) = push_bit (ilog2 (select_window ef n)) 1 - 1"
  "ef_log2_ones_per_inventory (select_params ef n junk) = ilog2 (select_window ef n)"
  "ef_ones_per_inventory (select_params ef n junk) = 2 ^ ilog2 (select_window ef n)"
  "ef_upper (select_params ef n junk) = ef_upper ef"
  "ef_bitarraylen (select_params ef n junk) = ef_bitarraylen ef"
  "ef_inventory_size (select_params ef n junk)
     = (n + 2 ^ ilog2 (select_window ef n) - 1) div 2 ^ ilog2 (select_window ef n)"
  "length (ef_inventory (select_params ef n junk))
     = (n + 2 ^ ilog2 (select_window ef n) - 1) div 2 ^ ilog2 (select_window ef n) + 1"
  by (simp_all add: select_params_def Let_def push_bit_eq_mult)

lemma pass_bodies_cong:
  assumes "ef_ones_per_inventory_mask ef3 = ef_ones_per_inventory_mask efp"
    and "ef_log2_ones_per_inventory ef3 = ef_log2_ones_per_inventory efp"
    and "ef_upper ef3 = ef_upper efp"
  shows "pass3_body ef3 = pass3_body efp"
proof (intro ext)
  fix x st
  have one: "pass3_one ef3 x st = pass3_one efp x st"
    unfolding pass3_one_def assms by (rule refl)
  show "pass3_body ef3 x st = pass3_body efp x st"
    unfolding pass3_body_def one assms by (rule refl)
qed

lemma simple_select_build_runs:
  assumes B: "simple_select_build ef n var junk = Some (0, ef')"
    and opi: "1 < ef_ones_per_inventory ef'"
  shows "\<exists>st0 st1 st2 st3 E0.
    for_loop [0..<ef_bitarraylen ef] (pass1_body (select_params ef n junk)) st0 = Some st1 \<and>
    for_loop [0..<ef_bitarraylen ef] (pass2_body (select_params ef n junk))
      (st1\<lparr>sl_inventory := (sl_inventory st1)
          [ef_inventory_size (select_params ef n junk) := word_of_nat (ef_bitarraylen ef)],
          sl_d := 0\<rparr>) = Some st2 \<and>
    for_loop [0..<ef_bitarraylen ef] (pass3_body (select_params ef n junk))
      (st2\<lparr>sl_spilled := 0, sl_d := 0, sl_exact_spill := E0\<rparr>) = Some st3 \<and>
    sl_d st0 = 0 \<and> sl_inventory st0 = ef_inventory (select_params ef n junk) \<and>
    ef_inventory ef' = sl_inventory st3 \<and>
    ef_exact_spill ef' = sl_exact_spill st3 \<and>
    ef_ones_per_inventory ef' = ef_ones_per_inventory (select_params ef n junk) \<and>
    ef_upper ef' = ef_upper ef \<and>
    ef_bitarraylen ef' = ef_bitarraylen ef"
proof -
  let ?p = "select_params ef n junk"
  let ?len = "ef_bitarraylen ef"
  let ?st0 = "\<lparr>sl_d = 0, sl_start = 0, sl_span = 0, sl_spilled = 0,
      sl_inventory_index = 0, sl_ones = 0,
      sl_inventory = ef_inventory ?p, sl_exact_spill = ef_exact_spill ?p\<rparr>"
  from B obtain st1 where r1: "for_loop [0..<?len] (pass1_body ?p) ?st0 = Some st1"
    by (auto simp: simple_select_build_def Let_def split: if_splits Option.bind_splits)
  let ?st1 = "st1\<lparr>sl_inventory := (sl_inventory st1)
      [ef_inventory_size ?p := word_of_nat ?len], sl_d := 0\<rparr>"
  have gt: "1 < ef_ones_per_inventory ?p"
    using B opi r1
    by (auto simp: simple_select_build_def Let_def eflist_spill_too_small_def
        split: if_splits Option.bind_splits)
  from B r1 gt obtain st2 where r2: "for_loop [0..<?len] (pass2_body ?p) ?st1 = Some st2"
    by (auto simp: simple_select_build_def Let_def split: if_splits Option.bind_splits)
  define ef3 where "ef3 = (if sl_spilled st2 > 0 \<and> int (ef_spill_size ?p) < sl_spilled st2 \<and> var
      then ?p\<lparr>ef_spill_size := nat (sl_spilled st2),
         ef_exact_spill := map (\<lambda>i. junk (ef_inventory_size ?p + 1 + i)) [0..<nat (sl_spilled st2)]\<rparr>
      else ?p)"
  let ?st2 = "st2\<lparr>sl_spilled := 0, sl_d := 0, sl_exact_spill := ef_exact_spill ef3\<rparr>"
  from B r1 r2 gt obtain st3 where r3: "for_loop [0..<?len] (pass3_body ef3) ?st2 = Some st3"
    and e: "ef' = ef3\<lparr>ef_inventory := sl_inventory st3, ef_exact_spill := sl_exact_spill st3\<rparr>"
    by (auto simp: simple_select_build_def Let_def eflist_spill_too_small_def ef3_def
        split: if_splits Option.bind_splits)
  have same: "pass3_body ef3 = pass3_body ?p"
    by (rule pass_bodies_cong) (simp_all add: ef3_def)
  have f: "ef_ones_per_inventory ef' = ef_ones_per_inventory ?p" "ef_upper ef' = ef_upper ef"
    "ef_bitarraylen ef' = ef_bitarraylen ef"
    by (simp_all add: e ef3_def select_params_fields)
  from r1 r2 r3 [unfolded same] f e show ?thesis
    by (intro exI [of _ ?st0] exI [of _ st1] exI [of _ st2] exI [of _ st3]
        exI [of _ "ef_exact_spill ef3"]) simp
qed


lemma ones_of_sorted: "sorted (ones_of ef)"
  by (simp add: ones_of_def sorted_wrt_filter)

lemma ones_of_less:
  assumes "t < length (ones_of ef)"
  shows "ones_of ef ! t < ef_bitarraylen ef"
proof -
  have "ones_of ef ! t \<in> set (ones_of ef)" using assms by (rule nth_mem)
  then show ?thesis by (simp add: ones_of_def)
qed

lemma ones_of_length: "length (ones_of ef) \<le> ef_bitarraylen ef"
  using length_filter_le [of _ "[0..<ef_bitarraylen ef]"] by (simp add: ones_of_def)

lemma word_of_nat_diff_le:
  fixes a b c :: nat
  assumes "b \<le> a" and "a < 2 ^ 64" and "c < 2 ^ 64"
  shows "(word_of_nat c :: 64 word) \<le> word_of_nat a - word_of_nat b \<longleftrightarrow> c \<le> a - b"
proof -
  have "(word_of_nat a - word_of_nat b :: 64 word) = word_of_nat (a - b)"
    using assms(1) by (simp add: of_nat_diff)
  moreover have "a - b < 2 ^ 64" using assms(2) by simp
  ultimately show ?thesis using assms(3)
    by (simp add: word_of_nat_less_eq_iff take_bit_nat_eq_self)
qed

lemma ceil_div_less:
  fixes j n q :: nat
  assumes "0 < q" and "j * q < n"
  shows "j < (n + q - 1) div q"
proof -
  have "Suc j * q \<le> n + q - 1" using assms by simp
  then have "Suc j \<le> (n + q - 1) div q"
    using assms(1) by (simp add: less_eq_div_iff_mult_less_eq)
  then show ?thesis by simp
qed

lemma ceil_div_eq:
  fixes j n q :: nat
  assumes "0 < q" and "j * q < n" and "n \<le> (j + 1) * q"
  shows "(n + q - 1) div q = j + 1"
proof -
  have "j + 1 \<le> (n + q - 1) div q" using ceil_div_less [OF assms(1,2)] by simp
  moreover have "n + q - 1 < (j + 2) * q" using assms by simp
  then have "(n + q - 1) div q < j + 2"
    using assms(1) by (simp add: div_less_iff_less_mult)
  ultimately show ?thesis by simp
qed


lemma MAX_SPAN_of_nat: "MAX_SPAN = word_of_nat (2 ^ 16)"
  by (simp add: MAX_SPAN_def)

lemma sint_of_nat_small:
  fixes x :: nat
  assumes "x < 2 ^ 63"
  shows "sint (word_of_nat x :: 64 word) = int x"
proof -
  have "int x < 2 ^ 63" using assms by (metis of_nat_less_iff of_nat_numeral of_nat_power)
  then show ?thesis
    by (simp add: sint_uint signed_take_bit_int_eq_self unsigned_of_nat take_bit_nat_eq_self
        signed_of_nat signed_take_bit_int_eq_self_iff)
qed

lemma pass3_spill_bound:
  assumes "for_loop xs (pass3_one ef) st0 = Some st"
    and "0 \<le> sl_spilled st0" and "sl_spilled st0 \<le> int (length (sl_exact_spill st0))"
  shows "0 \<le> sl_spilled st \<and> sl_spilled st \<le> int (length (sl_exact_spill st))"
  using assms
proof (induction xs arbitrary: st rule: rev_induct)
  case Nil
  then show ?case by simp
next
  case (snoc x xs)
  from snoc.prems(1) obtain st1 where r1: "for_loop xs (pass3_one ef) st0 = Some st1"
    and step: "pass3_one ef x st1 = Some st"
    by (auto simp: for_loop_snoc)
  have "0 \<le> sl_spilled st1 \<and> sl_spilled st1 \<le> int (length (sl_exact_spill st1))"
    by (rule snoc.IH [OF r1 snoc.prems(2,3)])
  then show ?case using step
    by (auto simp: pass3_one_def Let_def split: if_splits Option.bind_splits)
qed

text \<open>The ones of the example lists with a long gap, and two more builds.\<close>

lemma ones_of_sparse:
  assumes "gap_zero (ba_A (ef_upper ef))" and "ba_s (ef_upper ef) < 0"
    and "ef_bitarraylen ef = sparse_len"
  shows "ones_of ef =
    filter (\<lambda>i. bit_array_getbitk (ef_upper ef) i = Some 1) [0..<64] @
    filter (\<lambda>i. bit_array_getbitk (ef_upper ef) i = Some 1) [65600..<65664]"
proof -
  have g: "bit_array_getbitk (ef_upper ef) i = Some 0" if "64 \<le> i" "i < 65600" for i
    using sparse_gap [OF assms(1) that] assms(2) by (simp add: bit_array_getbitk_def)
  have "filter (\<lambda>i. bit_array_getbitk (ef_upper ef) i = Some 1) [64..<65600] = []"
    unfolding filter_empty_conv using g by (simp del: upt_rec_numeral)
  then show ?thesis
    by (simp only: ones_of_def assms(3) upt_sparse_len filter_append append_Nil)
qed

lemma ones_of_examples:
  "ones_of (ef_sparse 8 255 9) = [3, 65600, 65601, 65602, 65603, 65604, 65605, 65606, 65607]"
  "ones_of (ef_sparse 56 63 9) = [3, 4, 5, 65600, 65601, 65602, 65603, 65604, 65605]"
  "ones_of (ef_sparse 32 32 2) = [5, 65605]"
proof -
  have a: "gap_zero (ba_A (ef_upper (ef_sparse w0 w1 n)))" "ba_s (ef_upper (ef_sparse w0 w1 n)) < 0"
    "ef_bitarraylen (ef_sparse w0 w1 n) = sparse_len" for w0 w1 n
    by (simp_all add: ef_sparse_def gap_zero_sparse)
  show "ones_of (ef_sparse 8 255 9) = [3, 65600, 65601, 65602, 65603, 65604, 65605, 65606, 65607]"
    unfolding ones_of_sparse [OF a]
    by (simp add: ef_sparse_def bit_array_getbitk_def get_bitk_def shl64_def upt_eval nth_append Let_def)
  show "ones_of (ef_sparse 56 63 9) = [3, 4, 5, 65600, 65601, 65602, 65603, 65604, 65605]"
    unfolding ones_of_sparse [OF a]
    by (simp add: ef_sparse_def bit_array_getbitk_def get_bitk_def shl64_def upt_eval nth_append Let_def)
  show "ones_of (ef_sparse 32 32 2) = [5, 65605]"
    unfolding ones_of_sparse [OF a]
    by (simp add: ef_sparse_def bit_array_getbitk_def get_bitk_def shl64_def upt_eval nth_append Let_def)
qed

lemma ones_of_cong:
  assumes "ef_upper a = ef_upper b" and "ef_bitarraylen a = ef_bitarraylen b"
  shows "ones_of a = ones_of b"
  by (simp add: ones_of_def assms)

lemma stalled_built:
  "simple_select_build (ef_sparse 56 63 9) 9 False junk_zero =
    Some (0, \<lparr>ef_size = 9, ef_s = 0, ef_lower = \<lparr>ba_s = 0, ba_A = [], ba_curr = 9\<rparr>,
        ef_upper = \<lparr>ba_s = - 1, ba_A = 56 # replicate 1024 0 @ [63], ba_curr = 9\<rparr>,
        ef_bitarraylen = sparse_len, ef_num_ones = 9,
        ef_log2_ones_per_inventory = 1, ef_ones_per_inventory = 2,
        ef_ones_per_inventory_mask = 1, ef_inventory_size = 5,
        ef_inventory = [3, 5, 65601, 65603, 65605, 65664],
        ef_exact_spill = [0, 0, 0, 0], ef_spill_size = 4\<rparr>)"
  by (simp add: sparse_eval)

lemma single_built:
  "simple_select_build (ef_sparse 32 32 2) 2 False junk_zero =
    Some (0, \<lparr>ef_size = 2, ef_s = 0, ef_lower = \<lparr>ba_s = 0, ba_A = [], ba_curr = 2\<rparr>,
        ef_upper = \<lparr>ba_s = - 1, ba_A = 32 # replicate 1024 0 @ [32], ba_curr = 2\<rparr>,
        ef_bitarraylen = sparse_len, ef_num_ones = 2,
        ef_log2_ones_per_inventory = 0, ef_ones_per_inventory = 1,
        ef_ones_per_inventory_mask = 0, ef_inventory_size = 2,
        ef_inventory = [5, 65605, 65664],
        ef_exact_spill = [0, 0, 0, 0], ef_spill_size = 4\<rparr>)"
  by (simp add: sparse_eval)

text \<open>
  Two more facts about the third loop: the counter \<open>d\<close> never passes a block that
  spans less than \<open>MAX_SPAN\<close> bits, and what a call that returns 0 leaves behind, in
  terms of the invariant.
\<close>

lemma pass3_step_below:
  assumes I: "pass3_inv L inv1 E0 xs st1"
    and step: "pass3_one ef x st1 = Some st"
    and mask: "ef_ones_per_inventory_mask ef = push_bit L 1 - 1"
    and log: "ef_log2_ones_per_inventory ef = L"
    and low: "\<And>k. k * 2 ^ L < sl_d st1 \<Longrightarrow> spilled_block inv1 k"
    and k: "k * 2 ^ L < sl_d st"
  shows "spilled_block inv1 k"
proof -
  define m where "m = sl_d st1"
  define idx where "idx = m div 2 ^ L"
  have q: "(0::nat) < 2 ^ L" by simp
  have sp: "sl_spilled st1 = int m"
    using I by (simp_all add: pass3_inv_def m_def)
  have Id: "sl_inventory st1 ! k = inv1 ! k" if "m \<le> k * 2 ^ L" for k
    using I that unfolding pass3_inv_def m_def by blast
  have c: "(sl_d st1 AND ef_ones_per_inventory_mask ef = 0) = (m mod 2 ^ L = 0)"
    by (simp only: mask m_def and_mask_pow)
  have i: "drop_bit (ef_log2_ones_per_inventory ef) (sl_d st1) = idx"
    by (simp only: log m_def idx_def drop_bit_eq_div)
  have c': "(m AND ef_ones_per_inventory_mask ef = 0) = (m mod 2 ^ L = 0)"
    by (simp only: mask and_mask_pow)
  note step' = step [unfolded pass3_one_def c i Let_def]
  show ?thesis
  proof (cases "m mod 2 ^ L = 0")
    case True
    have mi: "idx * 2 ^ L = m"
      using True div_mult_mod_eq [of m "2 ^ L"] by (simp add: idx_def)
    have r0: "sl_inventory st1 ! idx = inv1 ! idx"
      by (rule Id) (simp add: mi)
    have r1: "sl_inventory st1 ! Suc idx = inv1 ! Suc idx"
      by (rule Id) (simp add: mi [symmetric])
    show ?thesis
    proof (cases "spilled_block inv1 idx")
      case False
      then have lt: "inv1 ! (idx + 1) - inv1 ! idx < MAX_SPAN"
        by (simp add: spilled_block_def not_le)
      from step' True lt have "sl_d st = m"
        by (auto simp: c i r0 r1 m_def split: if_splits)
      then show ?thesis using low [of k] k by (simp add: m_def)
    next
      case B: True
      then have nlt: "\<not> inv1 ! (idx + 1) - inv1 ! idx < MAX_SPAN"
        by (simp add: spilled_block_def not_less)
      from step' True nlt have "sl_d st = m + 1"
        by (auto simp: c c' i r0 r1 sp m_def [symmetric] split: if_splits)
      then have "k * 2 ^ L < m \<or> k = idx"
        using k mult_pow_cases [OF q, of k m] by (auto simp: idx_def)
      then show ?thesis using low [of k] B by (auto simp: m_def)
    qed
  next
    case False
    from step' False have "sl_d st = m \<or> sl_d st = m + 1"
      unfolding m_def by (auto split: if_splits)
    then have "k * 2 ^ L < m"
      using k False mult_pow_cases [OF q, of k m] by auto
    then show ?thesis using low [of k] by (simp add: m_def)
  qed
qed

lemma pass3_below_run:
  assumes run: "for_loop xs (pass3_one ef) st0 = Some st"
    and init: "sl_d st0 = 0" "sl_spilled st0 = 0" "sl_inventory st0 = inv1" "sl_exact_spill st0 = E0"
    and mask: "ef_ones_per_inventory_mask ef = push_bit L 1 - 1"
    and log: "ef_log2_ones_per_inventory ef = L"
  shows "\<forall>k. k * 2 ^ L < sl_d st \<longrightarrow> spilled_block inv1 k"
  using run
proof (induction xs arbitrary: st rule: rev_induct)
  case Nil
  then show ?case using init by simp
next
  case (snoc x xs)
  from snoc.prems obtain st1 where r1: "for_loop xs (pass3_one ef) st0 = Some st1"
    and step: "pass3_one ef x st1 = Some st"
    by (auto simp: for_loop_snoc)
  have I: "pass3_inv L inv1 E0 xs st1"
    by (rule pass3_run [OF r1 init mask log])
  have low: "\<And>k. k * 2 ^ L < sl_d st1 \<Longrightarrow> spilled_block inv1 k"
    using snoc.IH [OF r1] by blast
  show ?case
    using pass3_step_below [OF I step mask log low] by blast
qed

lemma third_loop_summary:
  assumes B: "simple_select_build ef n var junk = Some (0, ef')"
    and opi: "1 < ef_ones_per_inventory ef'"
    and n: "length (ones_of ef) = n"
    and len: "ef_bitarraylen ef < 2 ^ 31"
  shows "\<exists>L inv1 E0 st.
    ef_ones_per_inventory ef' = 2 ^ L \<and>
    ef_inventory ef' = sl_inventory st \<and>
    ef_exact_spill ef' = sl_exact_spill st \<and>
    pass3_inv L inv1 E0 (ones_of ef) st \<and>
    (\<forall>k. k * 2 ^ L < sl_d st \<longrightarrow> spilled_block inv1 k) \<and>
    sl_spilled st \<le> int (length (sl_exact_spill st)) \<and>
    (\<forall>j. j * 2 ^ L < n \<longrightarrow>
       j + 1 < length inv1 \<and>
       inv1 ! j = word_of_nat (ones_of ef ! (j * 2 ^ L)) \<and>
       (spilled_block inv1 j \<longleftrightarrow> 2 ^ 16 \<le> block_span ef' j))"
proof -
  define p where "p = select_params ef n junk"
  define L where "L = ilog2 (select_window ef n)"
  define q :: nat where "q = 2 ^ L"
  define P where "P = ones_of ef"
  define isz where "isz = (n + q - 1) div q"
  let ?len = "ef_bitarraylen ef"
  have q0: "0 < q" by (simp add: q_def)
  from simple_select_build_runs [OF B opi] obtain st0 st1 st2 st3 E0 where
    r1: "for_loop [0..<?len] (pass1_body p) st0 = Some st1"
    and r2: "for_loop [0..<?len] (pass2_body p)
      (st1\<lparr>sl_inventory := (sl_inventory st1)[ef_inventory_size p := word_of_nat ?len],
          sl_d := 0\<rparr>) = Some st2"
    and r3: "for_loop [0..<?len] (pass3_body p)
      (st2\<lparr>sl_spilled := 0, sl_d := 0, sl_exact_spill := E0\<rparr>) = Some st3"
    and d0: "sl_d st0 = 0" and i0: "sl_inventory st0 = ef_inventory p"
    and inv': "ef_inventory ef' = sl_inventory st3"
    and sp': "ef_exact_spill ef' = sl_exact_spill st3"
    and q': "ef_ones_per_inventory ef' = ef_ones_per_inventory p"
    and up': "ef_upper ef' = ef_upper ef"
    and bl': "ef_bitarraylen ef' = ef_bitarraylen ef"
    unfolding p_def by blast
  have mask: "ef_ones_per_inventory_mask p = push_bit L 1 - 1"
    and log: "ef_log2_ones_per_inventory p = L"
    and qp: "ef_ones_per_inventory p = q"
    and up: "ef_upper p = ef_upper ef"
    and iszp: "ef_inventory_size p = isz"
    and leni: "length (ef_inventory p) = isz + 1"
    by (simp_all add: p_def L_def q_def isz_def select_params_fields)
  have qe: "ef_ones_per_inventory ef' = q" using q' qp by simp
  have P': "ones_of ef' = P" by (simp add: ones_of_def P_def up' bl')
  have filt: "filter (\<lambda>i. bit_array_getbitk (ef_upper p) i = Some 1) [0..<?len] = P"
    by (simp add: ones_of_def P_def up)
  have lenP: "length P = n" using n by (simp add: P_def)
  have sortedP: "sorted P" unfolding P_def by (rule ones_of_sorted)
  have P_less: "\<And>i. i < n \<Longrightarrow> P ! i < ?len"
    using ones_of_less [of _ ef] n by (simp add: P_def)
  have len64: "?len < 2 ^ 64" using len by simp
  have n_len: "n \<le> ?len" using ones_of_length [of ef] n by simp
  have g1: "for_loop P (pass1_one p) st0 = Some st1"
    using for_loop_guard [OF pass_bodies_guard(1) r1] by (simp only: filt)
  have g2: "for_loop P (pass2_one p)
      (st1\<lparr>sl_inventory := (sl_inventory st1)[ef_inventory_size p := word_of_nat ?len],
          sl_d := 0\<rparr>) = Some st2"
    using for_loop_guard [OF pass_bodies_guard(2) r2] by (simp only: filt)
  have g3: "for_loop P (pass3_one p)
      (st2\<lparr>sl_spilled := 0, sl_d := 0, sl_exact_spill := E0\<rparr>) = Some st3"
    using for_loop_guard [OF pass_bodies_guard(3) r3] by (simp only: filt)
  define inv1 where "inv1 = (sl_inventory st1)[isz := word_of_nat ?len]"
  from pass1_run [OF g1 d0 mask log]
  have len1: "length (sl_inventory st1) = isz + 1"
    and at1: "\<And>j. j * q < n \<Longrightarrow> sl_inventory st1 ! j = word_of_nat (P ! (j * q))"
    by (simp_all add: i0 leni lenP q_def)
  from pass2_run [OF g2]
  have inv2: "sl_inventory st2 = inv1" by (simp add: inv1_def iszp)
  have I: "pass3_inv L inv1 E0 P st3"
    by (rule pass3_run [OF g3 _ _ _ _ mask log]) (simp_all add: inv2)
  have bound: "0 \<le> sl_spilled st3 \<and> sl_spilled st3 \<le> int (length (sl_exact_spill st3))"
    by (rule pass3_spill_bound [OF g3]) simp_all
  have leninv1: "length inv1 = isz + 1" by (simp add: inv1_def len1)
  have inv1_at: "inv1 ! j = word_of_nat (P ! (j * q))" if "j * q < n" for j
  proof -
    have "j < isz" unfolding isz_def by (rule ceil_div_less [OF q0 that])
    then show ?thesis by (simp add: inv1_def at1 [OF that])
  qed
  have inv1_next: "inv1 ! (j + 1) =
      word_of_nat (if (j + 1) * q < n then P ! ((j + 1) * q) else ?len)" if "j * q < n" for j
  proof (cases "(j + 1) * q < n")
    case True
    then show ?thesis using inv1_at [of "j + 1"] by simp
  next
    case False
    then have "isz = j + 1" unfolding isz_def using ceil_div_eq [OF q0 that, of ] by simp
    then show ?thesis using False len1 by (simp add: inv1_def)
  qed
  have span_iff: "spilled_block inv1 j \<longleftrightarrow> 2 ^ 16 \<le> block_span ef' j" if jn: "j * q < n" for j
  proof -
    define X where "X = (if (j + 1) * q < n then P ! ((j + 1) * q) else ?len)"
    have a: "P ! (j * q) \<le> X"
    proof (cases "(j + 1) * q < n")
      case True
      have "P ! (j * q) \<le> P ! ((j + 1) * q)"
        by (rule sorted_nth_mono [OF sortedP]) (use True lenP in simp_all)
      then show ?thesis using True by (simp add: X_def)
    next
      case False
      then show ?thesis using P_less [OF jn] by (simp add: X_def)
    qed
    have b: "X < 2 ^ 64"
    proof (cases "(j + 1) * q < n")
      case True
      then show ?thesis using P_less [OF True] len64 by (simp add: X_def)
    next
      case False
      then show ?thesis using len64 by (simp add: X_def)
    qed
    have "spilled_block inv1 j \<longleftrightarrow>
        (word_of_nat (2 ^ 16) :: 64 word) \<le> word_of_nat X - word_of_nat (P ! (j * q))"
      unfolding spilled_block_def MAX_SPAN_of_nat inv1_at [OF jn] inv1_next [OF jn] X_def
      by (rule refl)
    also have "\<dots> \<longleftrightarrow> 2 ^ 16 \<le> X - P ! (j * q)"
      by (rule word_of_nat_diff_le [OF a b]) simp
    also have "X - P ! (j * q) = block_span ef' j"
      by (simp add: block_span_def Let_def P' qe lenP bl' X_def)
    finally show ?thesis .
  qed
  have low: "\<forall>k. k * 2 ^ L < sl_d st3 \<longrightarrow> spilled_block inv1 k"
    by (rule pass3_below_run [OF g3 _ _ _ _ mask log]) (simp_all add: inv2)
  have all: "j + 1 < length inv1 \<and> inv1 ! j = word_of_nat (ones_of ef ! (j * 2 ^ L)) \<and>
      (spilled_block inv1 j \<longleftrightarrow> 2 ^ 16 \<le> block_span ef' j)" if "j * 2 ^ L < n" for j
  proof -
    have jq: "j * q < n" using that by (simp add: q_def)
    have "j < isz" unfolding isz_def by (rule ceil_div_less [OF q0 jq])
    then show ?thesis
      using inv1_at [OF jq] span_iff [OF jq] leninv1 by (simp add: P_def q_def)
  qed
  show ?thesis
    using qe inv' sp' I low bound all unfolding P_def q_def by blast
qed
section \<open>Theorems\<close>

text \<open>
  Claim C9. \<open>bvgraph_error_string\<close> is total: whatever the code, the pointer it
  returns is not null; and for the documented code \<open>bvgraph_unsupported_version\<close>
  (22) the string is the generic ``unknown error'', not a version-specific message.
\<close>

theorem bvgraph_error_string_total:
  "bvgraph_error_string code \<noteq> None \<and>
   bvgraph_unsupported_version = 22 \<and>
   bvgraph_error_string bvgraph_unsupported_version = Some ''unknown error''"
  by (simp add: bvgraph_error_string_def bvgraph_error_codes)

text \<open>
  Claim C10. For every 64-bit word \<open>x\<close>, \<open>bit_count x\<close> is the number of set bits of
  \<open>x\<close>: the value returned, read as the C \<^verbatim>\<open>int\<close> it is, equals the reference
  \<open>popcount x\<close>, which is the cardinality of the set of positions where \<open>x\<close> has a one.
\<close>

theorem bit_count_popcount:
  "sint (bit_count x) = int (popcount x) \<and> popcount x = card {n. bit x n}"
proof -
  have u: "unat (bit_count x) = popcount x"
    by (simp only: bit_count_unat pcn_unat popcount_card)
  have "popcount x \<le> 64"
    unfolding popcount_def using length_filter_le [of "bit x" "[0..<64]"] by simp
  then have le: "uint (bit_count x) \<le> 64"
    using u by (simp only: uint_nat)
  have ge: "0 \<le> uint (bit_count x)" by simp
  have p31: "(2::int) ^ 31 = 2147483648" by simp
  have "signed_take_bit 31 (uint (bit_count x)) = uint (bit_count x)"
  proof (rule signed_take_bit_int_eq_self)
    show "- (2 ^ 31) \<le> uint (bit_count x)" unfolding p31 using ge by linarith
    show "uint (bit_count x) < 2 ^ 31" unfolding p31 using le by linarith
  qed
  then have "sint (bit_count x) = uint (bit_count x)"
    by (simp add: sint_uint)
  also have "\<dots> = int (unat (bit_count x))"
    by (simp only: uint_nat)
  finally have "sint (bit_count x) = int (popcount x)"
    by (simp only: u)
  then show ?thesis using popcount_card [of x] by (rule conjI)
qed

text \<open>
  Claim C7, as amended. \<open>eflist_add\<close> returns \<open>eflist_out_of_bound\<close>, with the list
  unchanged, when the list already holds its declared number of elements, and in no
  other case: below capacity every return code is 0, and the call does return 0 whenever
  the two bit arrays have room for the element, whatever the order of the element
  relative to those added before. The order is checked by \<open>eflist_addbatch\<close> alone,
  which returns \<open>eflist_batch_nondecreasing\<close>, with the list unchanged, for every array
  that contains a decreasing adjacent pair.
\<close>

theorem eflist_add_errors:
  "(ef_size ef \<le> ba_curr (ef_lower ef) \<longrightarrow>
      eflist_add ef elem = Some (eflist_out_of_bound, ef)) \<and>
   (ba_curr (ef_lower ef) < ef_size ef \<longrightarrow>
      (\<forall>r ef'. eflist_add ef elem = Some (r, ef') \<longrightarrow> r = 0)) \<and>
   (ba_curr (ef_lower ef) < ef_size ef \<and>
    ba_s (ef_lower ef) = int (ef_s ef) \<and>
    (ba_curr (ef_lower ef) + 1) * ef_s ef \<le> 64 * length (ba_A (ef_lower ef)) \<and>
    ba_s (ef_upper ef) < 0 \<and>
    0 \<le> drop_bit (ef_s ef) elem + int (ba_curr (ef_lower ef)) \<and>
    drop_bit (ef_s ef) elem + int (ba_curr (ef_lower ef)) < 64 * int (length (ba_A (ef_upper ef))) \<longrightarrow>
      (\<exists>ef'. eflist_add ef elem = Some (0, ef'))) \<and>
   ((\<exists>i. i + 1 < length arr \<and> arr ! (i + 1) < arr ! i) \<longrightarrow>
      eflist_addbatch ef arr = Some (eflist_batch_nondecreasing, ef))"
proof (intro conjI impI)
  assume "ef_size ef \<le> ba_curr (ef_lower ef)"
  then show "eflist_add ef elem = Some (eflist_out_of_bound, ef)"
    by (simp add: eflist_add_def)
next
  assume "ba_curr (ef_lower ef) < ef_size ef"
  then show "\<forall>r ef'. eflist_add ef elem = Some (r, ef') \<longrightarrow> r = 0"
    by (auto simp: eflist_add_def Let_def split: Option.bind_splits)
next
  assume a: "ba_curr (ef_lower ef) < ef_size ef \<and>
    ba_s (ef_lower ef) = int (ef_s ef) \<and>
    (ba_curr (ef_lower ef) + 1) * ef_s ef \<le> 64 * length (ba_A (ef_lower ef)) \<and>
    ba_s (ef_upper ef) < 0 \<and>
    0 \<le> drop_bit (ef_s ef) elem + int (ba_curr (ef_lower ef)) \<and>
    drop_bit (ef_s ef) elem + int (ba_curr (ef_lower ef)) < 64 * int (length (ba_A (ef_upper ef)))"
  obtain lower where l: "bit_array_insert (ef_lower ef)
      (word_of_int (elem AND (push_bit (ef_s ef) 1 - 1))) (ba_curr (ef_lower ef)) = Some lower"
    using bit_array_insert_defined [of "ef_lower ef" "ef_s ef" "ba_curr (ef_lower ef)"] a by blast
  obtain upper where u: "bit_array_setbit (ef_upper ef)
      (drop_bit (ef_s ef) elem + int (ba_curr (ef_lower ef))) = Some upper"
    using bit_array_setbit_defined [of "ef_upper ef"] a by blast
  show "\<exists>ef'. eflist_add ef elem = Some (0, ef')"
    using a l u by (simp add: eflist_add_def Let_def)
next
  assume "\<exists>i. i + 1 < length arr \<and> arr ! (i + 1) < arr ! i"
  then have "\<not> nondecreasing_check arr"
    using nondecreasing_check_False by blast
  then show "eflist_addbatch ef arr = Some (eflist_batch_nondecreasing, ef)"
    by (simp add: eflist_addbatch_def)
qed

text \<open>
  The theorem at concrete lists of capacity 2: the full list refuses 9, the list that
  holds 5 takes the smaller 3, and the batch \<open>[5, 3]\<close> is refused.
\<close>

theorem eflist_add_errors_witness:
  "eflist_add (ef_cap2 8070450532247928832 6 2) 9
     = Some (eflist_out_of_bound, ef_cap2 8070450532247928832 6 2) \<and>
   (\<exists>ef'. eflist_add (ef_cap2 4611686018427387904 2 1) 3 = Some (0, ef')) \<and>
   eflist_addbatch (ef_cap2 0 0 0) [5, 3] = Some (eflist_batch_nondecreasing, ef_cap2 0 0 0)"
proof -
  have full: "ef_size (ef_cap2 8070450532247928832 6 2)
      \<le> ba_curr (ef_lower (ef_cap2 8070450532247928832 6 2))"
    by (simp add: ef_cap2_def)
  have room: "ba_curr (ef_lower (ef_cap2 4611686018427387904 2 1))
        < ef_size (ef_cap2 4611686018427387904 2 1) \<and>
      ba_s (ef_lower (ef_cap2 4611686018427387904 2 1))
        = int (ef_s (ef_cap2 4611686018427387904 2 1)) \<and>
      (ba_curr (ef_lower (ef_cap2 4611686018427387904 2 1)) + 1)
          * ef_s (ef_cap2 4611686018427387904 2 1)
        \<le> 64 * length (ba_A (ef_lower (ef_cap2 4611686018427387904 2 1))) \<and>
      ba_s (ef_upper (ef_cap2 4611686018427387904 2 1)) < 0 \<and>
      0 \<le> drop_bit (ef_s (ef_cap2 4611686018427387904 2 1)) (3::int)
            + int (ba_curr (ef_lower (ef_cap2 4611686018427387904 2 1))) \<and>
      drop_bit (ef_s (ef_cap2 4611686018427387904 2 1)) (3::int)
            + int (ba_curr (ef_lower (ef_cap2 4611686018427387904 2 1)))
        < 64 * int (length (ba_A (ef_upper (ef_cap2 4611686018427387904 2 1))))"
    by (simp add: ef_cap2_def)
  have pair: "\<exists>i. i + 1 < length [5, 3 :: int] \<and> [5, 3 :: int] ! (i + 1) < [5, 3] ! i"
    by (rule exI [of _ 0]) simp
  from eflist_add_errors [of "ef_cap2 8070450532247928832 6 2" 9 "[]"] full
  have a: "eflist_add (ef_cap2 8070450532247928832 6 2) 9
      = Some (eflist_out_of_bound, ef_cap2 8070450532247928832 6 2)"
    by blast
  from eflist_add_errors [of "ef_cap2 4611686018427387904 2 1" 3 "[]"] room
  have b: "\<exists>ef'. eflist_add (ef_cap2 4611686018427387904 2 1) 3 = Some (0, ef')"
    by blast
  from eflist_add_errors [of "ef_cap2 0 0 0" 0 "[5, 3]"] pair
  have c: "eflist_addbatch (ef_cap2 0 0 0) [5, 3]
      = Some (eflist_batch_nondecreasing, ef_cap2 0 0 0)"
    by blast
  from a b c show ?thesis by blast
qed

text \<open>
  Claim C7 as stated fails: on the list of capacity 2 that \<open>eflist_init 2 10\<close> returns,
  \<open>eflist_add\<close> of 5 and then of the smaller 3 both return 0. (The second call sets the
  upper bit the first one set: the two elements share one bit.)
\<close>

theorem eflist_add_accepts_smaller:
  "eflist_init 2 10 junk_zero = Some (ef_cap2 0 0 0) \<and>
   eflist_add (ef_cap2 0 0 0) 5 = Some (0, ef_cap2 4611686018427387904 2 1) \<and>
   (3::int) < 5 \<and>
   eflist_add (ef_cap2 4611686018427387904 2 1) 3 = Some (0, ef_cap2 8070450532247928832 2 2)"
  by (simp add: ef_cap2_def eflist_eval_defs Let_def)

text \<open>
  Claim C8 (scenario S5), evaluated on the code. The list built from \<open>[5, 10, 15, 20]\<close>
  with upper bound 20 has width \<open>s = 2\<close> (the quotient \<open>21 / 4\<close> is the integer 5, whose
  base-2 logarithm truncates to 2), an upper bit array of 9 bits with ones exactly at
  the positions 1, 3, 5 and 8, and the lower-bit items 1, 2, 3, 0; \<open>eflist_lookup\<close> of 1
  is 10. The claim, like the worked example in the comment above \<open>eflist_init\<close>, says
  \<open>s = 1\<close>, 14 bits, ones at 2, 6, 9, 13 and lower bits 1, 0, 1, 0.
\<close>

lemma S5_built:
  "eflist_built 4 20 [5, 10, 15, 20] junk =
    Some \<lparr>ef_size = 4, ef_s = 2,
      ef_lower = \<lparr>ba_s = 2, ba_A = [7782220156096217088], ba_curr = 4\<rparr>,
      ef_upper = \<lparr>ba_s = - 1, ba_A = [298], ba_curr = 4\<rparr>, ef_bitarraylen = 9,
      ef_num_ones = 4, ef_log2_ones_per_inventory = 11,
      ef_ones_per_inventory = 2048, ef_ones_per_inventory_mask = 2047,
      ef_inventory_size = 1, ef_inventory = [1, 9],
      ef_exact_spill = map (\<lambda>i. junk i) [0..<DEFAULT_SPILL_SIZE],
      ef_spill_size = DEFAULT_SPILL_SIZE\<rparr>"
  by (simp add: eflist_eval_defs Let_def)

text \<open>
  Claim C8: what the code computes for \<open>[5, 10, 15, 20]\<close> with upper bound 20.
\<close>

theorem eflist_example_S5:
  "\<exists>ef. eflist_built 4 20 [5, 10, 15, 20] junk = Some ef \<and>
     ef_s ef = 2 \<and>
     ef_bitarraylen ef = 9 \<and>
     filter (\<lambda>k. bit_array_getbitk (ef_upper ef) k = Some 1) [0..<ef_bitarraylen ef]
       = [1, 3, 5, 8] \<and>
     map (bit_array_get (ef_lower ef)) [0..<4] = [Some 1, Some 2, Some 3, Some 0] \<and>
     eflist_lookup ef 1 = Some 10"
  unfolding S5_built
  by (simp add: eflist_eval_defs Let_def)

text \<open>
  Claim C4 as stated fails. In the environment \<open>env_failing\<close> the build of the
  Elias-Fano index reports \<open>eflist_spill_too_small\<close> and both ways of loading the dense
  offsets fail, and \<open>bvgraph_load_external\<close> still returns 0 for \<open>offset_step = 2\<close> and
  for \<open>offset_step = 1\<close>.
\<close>

theorem load_external_swallows_build_errors:
  "fst (build_efcode env_failing bvgraph_zero 0) = eflist_spill_too_small \<and>
   eflist_spill_too_small \<noteq> 0 \<and>
   fst (bvgraph_load_external env_failing bvgraph_zero 8 2 0 0 0) = 0 \<and>
   fst (load_offset_from_file env_failing bvgraph_zero) \<noteq> 0 \<and>
   fst (load_offset_online env_failing bvgraph_zero) \<noteq> 0 \<and>
   fst (bvgraph_load_external env_failing bvgraph_zero 8 1 0 0 0) = 0"
  by (simp add: load_defs env_failing_def env_ok_def eflist_spill_too_small_def Let_def)

text \<open>
  Claim C4, as amended. The return code of \<open>bvgraph_load_external\<close> does not depend on
  what the steps that build the offsets do (whether the offsets file opens, what
  \<^verbatim>\<open>bitfile_open\<close>, \<^verbatim>\<open>bvgraph_nonzero_iterator\<close> and \<^verbatim>\<open>simple_select_build\<close>
  return): it is 0 as soon as the filename fits, the properties parse and, for
  \<open>offset_step \<ge> 0\<close>, the graph file has been sized, given room and read in full.
\<close>

theorem load_external_return_code:
  "fst (bvgraph_load_external
          (env\<lparr>env_offsets_fopen := a, env_bitfile_open := b, env_nonzero_iterator := c,
               env_simple_select_build := d\<rparr>) g0 filenamelen offset_step gmemory gmemsize offsets)
     = fst (bvgraph_load_external env g0 filenamelen offset_step gmemory gmemsize offsets) \<and>
   (filenamelen \<le> env_max_filename_size env - 1 \<and> env_parse_properties env = 0 \<and>
    (0 \<le> offset_step \<longrightarrow>
       env_fsize env = 0 \<and> (gmemory \<noteq> 0 \<longrightarrow> env_graphfilesize env \<le> gmemsize) \<and>
       (gmemory = 0 \<longrightarrow> env_malloc_memory env \<noteq> 0) \<and>
       env_graph_fopen env \<and> env_bytesread env = env_graphfilesize env)
    \<longrightarrow> fst (bvgraph_load_external env g0 filenamelen offset_step gmemory gmemsize offsets) = 0)"
  by (auto simp: bvgraph_load_external_def Let_def split: if_splits prod.splits)

text \<open>
  The theorem at \<open>env_ok\<close>, for a load with \<open>offset_step = 2\<close> into internal memory:
  the return code is 0, and it stays 0 when every build step is made to fail.
\<close>

theorem load_external_return_code_witness:
  "fst (bvgraph_load_external
          (env_ok\<lparr>env_offsets_fopen := False, env_bitfile_open := - 2,
                  env_nonzero_iterator := - 2, env_simple_select_build := (\<lambda>v. - 2)\<rparr>)
          bvgraph_zero 8 2 0 0 0) = 0 \<and>
   fst (bvgraph_load_external env_ok bvgraph_zero 8 2 0 0 0) = 0"
proof -
  have pre: "8 \<le> env_max_filename_size env_ok - 1 \<and> env_parse_properties env_ok = 0 \<and>
    (0 \<le> (2::int) \<longrightarrow>
       env_fsize env_ok = 0 \<and> ((0::nat) \<noteq> 0 \<longrightarrow> env_graphfilesize env_ok \<le> 0) \<and>
       ((0::nat) = 0 \<longrightarrow> env_malloc_memory env_ok \<noteq> 0) \<and>
       env_graph_fopen env_ok \<and> env_bytesread env_ok = env_graphfilesize env_ok)"
    by (simp add: env_ok_def)
  from load_external_return_code [where env = env_ok and a = False and b = "- 2" and c = "- 2"
      and d = "\<lambda>v. - 2" and ?g0.0 = bvgraph_zero and filenamelen = 8 and offset_step = 2
      and gmemory = 0 and gmemsize = 0 and offsets = 0] pre
  show ?thesis by simp
qed

text \<open>
  Claim C5, evaluated on the code for a graph of 1000 vertices and \<open>offset_step = 100\<close>.
  The load compares \<open>8 * n = 8000\<close> with 100 (bytes against bytes) and builds the
  Elias-Fano index (\<open>use_ef = 1\<close>); \<open>bvgraph_required_memory\<close> compares 8000 with
  \<open>100 * 2^20\<close> (bytes against megabytes) and reports a dense offsets buffer of 8000
  bytes and an Elias-Fano buffer of 0 bytes. The two functions do not agree.
\<close>

theorem load_and_required_memory_disagree:
  "fst (bvgraph_load_external env_ok bvgraph_zero 8 100 0 0 0) = 0 \<and>
   bvg_n (snd (bvgraph_load_external env_ok bvgraph_zero 8 100 0 0 0)) = 1000 \<and>
   bvg_use_ef (snd (bvgraph_load_external env_ok bvgraph_zero 8 100 0 0 0)) = 1 \<and>
   bvgraph_required_memory (snd (bvgraph_load_external env_ok bvgraph_zero 8 100 0 0 0))
       build_last 0 4096 100 True True True =
     Some \<lparr>rm_rval = 0, rm_gbuf = Some 4096, rm_offsetbuf = Some 8000, rm_efbuf = Some 0\<rparr>"
  by (simp add: load_defs env_ok_def bvgraph_required_memory_def Let_def)

text \<open>
  Claim C6, evaluated on the code for a graph loaded with \<open>offset_step = 2\<close>: the load
  returns 0, sets \<open>use_ef\<close> and leaves the four blocks of the Elias-Fano list at the
  addresses 201 to 204; \<open>bvgraph_close\<close> then clears the descriptor and frees the graph
  memory at address 100 and nothing else. The four blocks are never handed to
  \<^verbatim>\<open>free\<close>: the descriptor is cleared before \<open>use_ef\<close> is tested.
\<close>

theorem close_leaves_ef_blocks:
  "fst (bvgraph_load_external env_ok bvgraph_zero 8 2 0 0 0) = 0 \<and>
   bvg_use_ef (snd (bvgraph_load_external env_ok bvgraph_zero 8 2 0 0 0)) = 1 \<and>
   bvg_ef (snd (bvgraph_load_external env_ok bvgraph_zero 8 2 0 0 0)) =
     \<lparr>efm_inventory = 201, efm_exact_spill = 202, efm_spill_size = 81920,
      efm_lower_A = 203, efm_upper_A = 204\<rparr> \<and>
   bvgraph_close (snd (bvgraph_load_external env_ok bvgraph_zero 8 2 0 0 0)) [] =
     (0, bvgraph_zero, [100])"
  by (simp add: load_defs env_ok_def bvgraph_close_def eflist_free_def free_def Let_def)

text \<open>
  Whatever the descriptor, \<open>bvgraph_close\<close> hands to \<^verbatim>\<open>free\<close> at most the graph memory
  and the offsets array.
\<close>

lemma close_frees_only:
  "set (snd (snd (bvgraph_close g freed))) \<subseteq> set freed \<union> {bvg_memory g, bvg_offsets g}"
  by (auto simp: bvgraph_close_def bvgraph_zero_def free_def Let_def split: if_splits)

text \<open>
  Claim C2, evaluated on the code. The upper bit array of \<open>ef_sparse 8 255 9\<close> has its
  nine ones at the positions 3 and 65600 to 65607. \<open>simple_select_build\<close> returns 0 with
  two ones per inventory block; the first block spans 65598 bits, so it is spilled and
  \<open>inventory[0]\<close> receives the negated spill index, which is 0. Then \<open>select_rank 0\<close>
  returns 0, a position where the array has no one (the first one is at 3), and
  \<open>select_rank 1\<close> returns 3 (the second one is at 65600).
\<close>

lemma sparse_built:
  "simple_select_build (ef_sparse 8 255 9) 9 False junk_zero =
    Some (0, \<lparr>ef_size = 9, ef_s = 0, ef_lower = \<lparr>ba_s = 0, ba_A = [], ba_curr = 9\<rparr>,
        ef_upper = \<lparr>ba_s = - 1, ba_A = 8 # replicate 1024 0 @ [255], ba_curr = 9\<rparr>,
        ef_bitarraylen = sparse_len, ef_num_ones = 9,
        ef_log2_ones_per_inventory = 1, ef_ones_per_inventory = 2,
        ef_ones_per_inventory_mask = 1, ef_inventory_size = 5,
        ef_inventory = [0, 65601, 65603, 65605, 65607, 65664],
        ef_exact_spill = [3, 65600, 0, 0], ef_spill_size = 4\<rparr>)"
  by (simp add: sparse_eval)

text \<open>
  Claim C2: \<open>select_rank\<close> on a list whose first inventory block is spilled.
\<close>

theorem select_rank_wrong_on_spilled_block:
  "\<exists>ef. simple_select_build (ef_sparse 8 255 9) 9 False junk_zero = Some (0, ef) \<and>
     ef_num_ones ef = 9 \<and>
     map (bit_array_getbitk (ef_upper ef)) [0, 1, 2, 3] = [Some 0, Some 0, Some 0, Some 1] \<and>
     select_rank 0 ef = Some 0 \<and>
     select_rank 1 ef = Some 3 \<and>
     select_rank 9 ef = Some (- 1)"
  unfolding sparse_built
  by (simp add: sparse_eval eflist_out_of_bound_def)

text \<open>
  Claim C3, evaluated on the code. The upper bit array of \<open>ef_sparse 56 63 9\<close> has its
  nine ones at the positions 3, 4, 5 and 65600 to 65605. \<open>simple_select_build\<close> returns 0
  with two ones per inventory block. Block 0 (the ones at 3 and 4) spans 2 bits, and
  block 1 (the ones at 5 and 65600) spans 65596 bits, which is more than \<open>2\<^sup>1\<^sup>6\<close>. The
  third loop leaves the iteration at the first one of block 0 by \<^verbatim>\<open>continue\<close>, before
  \<^verbatim>\<open>d ++\<close>; so \<open>d\<close> is 0 at every later one as well, each of them is taken for the
  first one of block 0, and block 1 is never looked at. Its inventory entry stays the
  position 5 instead of the negated spill index, and the spill, which the second loop
  has counted two cells for, holds neither 5 nor 65600.
\<close>

theorem third_loop_stalls_at_short_block:
  "\<exists>ef'. simple_select_build (ef_sparse 56 63 9) 9 False junk_zero = Some (0, ef') \<and>
      ones_of ef' = [3, 4, 5, 65600, 65601, 65602, 65603, 65604, 65605] \<and>
      ef_ones_per_inventory ef' = 2 \<and>
      block_span ef' 0 = 2 \<and>
      block_span ef' 1 = 65596 \<and>
      ef_inventory ef' = [3, 5, 65601, 65603, 65605, 65664] \<and>
      ef_exact_spill ef' = [0, 0, 0, 0]"
proof -
  define e where "e = \<lparr>ef_size = 9, ef_s = 0, ef_lower = \<lparr>ba_s = 0, ba_A = [], ba_curr = 9\<rparr>,
        ef_upper = \<lparr>ba_s = - 1, ba_A = 56 # replicate 1024 0 @ [63], ba_curr = 9\<rparr>,
        ef_bitarraylen = sparse_len, ef_num_ones = 9,
        ef_log2_ones_per_inventory = 1, ef_ones_per_inventory = 2,
        ef_ones_per_inventory_mask = 1, ef_inventory_size = 5,
        ef_inventory = [3, 5, 65601, 65603, 65605, 65664],
        ef_exact_spill = [0, 0, 0, 0], ef_spill_size = 4\<rparr>"
  have B: "simple_select_build (ef_sparse 56 63 9) 9 False junk_zero = Some (0, e)"
    unfolding e_def by (rule stalled_built)
  have "ones_of e = ones_of (ef_sparse 56 63 9)"
    by (rule ones_of_cong) (simp_all add: e_def ef_sparse_def)
  then have P: "ones_of e = [3, 4, 5, 65600, 65601, 65602, 65603, 65604, 65605]"
    by (simp add: ones_of_examples)
  have q: "ef_ones_per_inventory e = 2" by (simp add: e_def)
  have span0: "block_span e 0 = 2" by (simp add: block_span_def Let_def P q)
  have span: "block_span e 1 = 65596" by (simp add: block_span_def Let_def P q)
  have "ef_inventory e = [3, 5, 65601, 65603, 65605, 65664] \<and> ef_exact_spill e = [0, 0, 0, 0]"
    by (simp add: e_def)
  with B P q span0 span
  show ?thesis by blast
qed
section \<open>What the third loop spills\<close>

text \<open>
  What the third loop of \<^verbatim>\<open>simple_select_build\<close> does reach. Let the call return 0 on a
  list of fewer than \<open>2\<^sup>3\<^sup>1\<close> bits whose upper bit array holds exactly \<open>num_ones\<close> ones,
  with more than one one per inventory block in the result. If block \<open>k\<close> and every
  block before it span at least \<open>2\<^sup>1\<^sup>6\<close> bits, then the inventory entry of block \<open>k\<close> is
  the negated spill index of the block, which is \<open>k\<close> times the number of ones per
  block, and for every one of the block, the \<open>r\<close>-th, the cell
  \<open>exact_spill[-inventory[k] + r]\<close> lies inside the spill and holds the position of that
  one in the upper bit array.
\<close>

lemma spill_of_leading_blocks:
  assumes B: "simple_select_build ef n var junk = Some (0, ef')"
    and opi: "1 < ef_ones_per_inventory ef'"
    and n: "length (ones_of ef) = n"
    and len: "ef_bitarraylen ef < 2 ^ 31"
    and spans: "\<forall>j \<le> k. 2 ^ 16 \<le> block_span ef' j"
    and t: "k * ef_ones_per_inventory ef' + r < n"
    and r: "r < ef_ones_per_inventory ef'"
  shows "k < length (ef_inventory ef') \<and>
    ef_inventory ef' ! k = - word_of_nat (k * ef_ones_per_inventory ef') \<and>
    0 \<le> sint (- (ef_inventory ef' ! k) + word_of_nat r) \<and>
    nat (sint (- (ef_inventory ef' ! k) + word_of_nat r)) < length (ef_exact_spill ef') \<and>
    ef_exact_spill ef' ! nat (sint (- (ef_inventory ef' ! k) + word_of_nat r))
      = word_of_nat (ones_of ef ! (k * ef_ones_per_inventory ef' + r))"
proof -
  from third_loop_summary [OF B opi n len] obtain L inv1 E0 st where
    qe: "ef_ones_per_inventory ef' = 2 ^ L"
    and inv': "ef_inventory ef' = sl_inventory st"
    and sp': "ef_exact_spill ef' = sl_exact_spill st"
    and I: "pass3_inv L inv1 E0 (ones_of ef) st"
    and bound: "sl_spilled st \<le> int (length (sl_exact_spill st))"
    and all: "\<And>j. j * 2 ^ L < n \<Longrightarrow> j + 1 < length inv1 \<and>
       (spilled_block inv1 j \<longleftrightarrow> 2 ^ 16 \<le> block_span ef' j)"
    by blast
  define q :: nat where "q = 2 ^ L"
  have q0: "0 < q" by (simp add: q_def)
  have qe': "ef_ones_per_inventory ef' = q" using qe by (simp add: q_def)
  have n_len: "n \<le> ef_bitarraylen ef" using ones_of_length [of ef] n by simp
  have dn: "sl_d st \<le> n" using I by (simp add: pass3_inv_def n)
  have td: "k * q + r < sl_d st"
  proof (cases "sl_d st = n")
    case True
    then show ?thesis using t qe' by simp
  next
    case False
    with I have m0: "sl_d st mod q = 0"
      and ns: "\<not> spilled_block inv1 (sl_d st div q)"
      by (simp_all add: pass3_inv_def n q_def)
    define m where "m = sl_d st div q"
    have dm: "sl_d st = m * q"
      using m0 unfolding m_def by (metis div_mult_mod_eq add.right_neutral)
    have "m * q < n" using dn False dm by simp
    then have "\<not> 2 ^ 16 \<le> block_span ef' m"
      using ns all [of m] by (simp add: m_def q_def)
    then have "k < m" using spans by (metis not_le_imp_less)
    then have "(k + 1) * q \<le> m * q"
      by (simp only: mult_le_mono1 Suc_leI Suc_eq_plus1 [symmetric])
    then show ?thesis using r qe' dm by simp
  qed
  have kd: "k * 2 ^ L < sl_d st" using td by (simp add: q_def)
  have c1: "sl_inventory st ! k = - word_of_nat (k * q)"
    using I kd by (simp add: pass3_inv_def q_def)
  have c2: "sl_exact_spill st ! (k * q + r) = word_of_nat (ones_of ef ! (k * q + r))"
    using I td by (simp add: pass3_inv_def)
  have sp: "sl_spilled st = int (sl_d st)" using I by (simp add: pass3_inv_def)
  have c3: "k * q + r < length (sl_exact_spill st)" using bound td sp by simp
  have "k * 2 ^ L < n" using t qe' by (simp add: q_def)
  then have "k + 1 < length inv1" using all [of k] by simp
  moreover have "length (sl_inventory st) = length inv1"
    using I by (simp add: pass3_inv_def)
  ultimately have c0: "k < length (sl_inventory st)" by simp
  have "k * q + r < 2 ^ 63" using t qe' n_len len by simp
  then have s: "sint (word_of_nat (k * q + r) :: 64 word) = int (k * q + r)"
    by (rule sint_of_nat_small)
  have idx: "- (sl_inventory st ! k) + word_of_nat r = (word_of_nat (k * q + r) :: 64 word)"
    by (simp add: c1)
  have nn: "nat (int (k * q + r)) = k * q + r" by (rule nat_int)
  show ?thesis
    unfolding inv' sp' qe' idx s nn using c0 c1 c2 c3 by simp
qed

text \<open>
  The lemma at the list \<open>ef_sparse 8 255 9\<close>, whose first block (the ones at 3 and
  65600) spans 65598 bits: the inventory entry is 0 and the second cell of the spill
  holds 65600.
\<close>

lemma spill_of_leading_blocks_sparse:
  "\<exists>ef'. simple_select_build (ef_sparse 8 255 9) 9 False junk_zero = Some (0, ef') \<and>
     ef_ones_per_inventory ef' = 2 \<and>
     ones_of (ef_sparse 8 255 9)
       = [3, 65600, 65601, 65602, 65603, 65604, 65605, 65606, 65607] \<and>
     block_span ef' 0 = 65598 \<and>
     ef_inventory ef' ! 0 = 0 \<and>
     ef_exact_spill ef' ! nat (sint (- (ef_inventory ef' ! 0) + 1)) = 65600"
proof -
  define e where "e = \<lparr>ef_size = 9, ef_s = 0, ef_lower = \<lparr>ba_s = 0, ba_A = [], ba_curr = 9\<rparr>,
        ef_upper = \<lparr>ba_s = - 1, ba_A = 8 # replicate 1024 0 @ [255], ba_curr = 9\<rparr>,
        ef_bitarraylen = sparse_len, ef_num_ones = 9,
        ef_log2_ones_per_inventory = 1, ef_ones_per_inventory = 2,
        ef_ones_per_inventory_mask = 1, ef_inventory_size = 5,
        ef_inventory = [0, 65601, 65603, 65605, 65607, 65664],
        ef_exact_spill = [3, 65600, 0, 0], ef_spill_size = 4\<rparr>"
  have B: "simple_select_build (ef_sparse 8 255 9) 9 False junk_zero = Some (0, e)"
    unfolding e_def by (rule sparse_built)
  have q: "ef_ones_per_inventory e = 2" by (simp add: e_def)
  have P: "ones_of (ef_sparse 8 255 9)
      = [3, 65600, 65601, 65602, 65603, 65604, 65605, 65606, 65607]"
    by (rule ones_of_examples)
  have P': "ones_of e = ones_of (ef_sparse 8 255 9)"
    by (rule ones_of_cong) (simp_all add: e_def ef_sparse_def)
  have span: "block_span e 0 = 65598"
    by (simp add: block_span_def Let_def P' P q)
  have h1: "1 < ef_ones_per_inventory e" by (simp add: q)
  have h2: "length (ones_of (ef_sparse 8 255 9)) = 9" by (simp add: P)
  have h3: "ef_bitarraylen (ef_sparse 8 255 9) < 2 ^ 31"
    by (simp add: ef_sparse_def sparse_len_def)
  have h4: "\<forall>j \<le> 0. 2 ^ 16 \<le> block_span e j" by (simp add: span)
  have h5: "0 * ef_ones_per_inventory e + 1 < 9" by (simp add: q)
  have h6: "1 < ef_ones_per_inventory e" by (simp add: q)
  note spilled = spill_of_leading_blocks [OF B h1 h2 h3 h4 h5 h6]
  have i0: "ef_inventory e ! 0 = 0" using spilled by (simp add: q)
  have "ef_exact_spill e ! nat (sint (- (ef_inventory e ! 0) + 1)) = 65600"
    using spilled by (simp add: P q i0)
  with B q P span i0 show ?thesis by blast
qed

text \<open>
  What the third loop does not reach. Under the same conditions, if block \<open>j\<close> spans
  fewer than \<open>2\<^sup>1\<^sup>6\<close> bits, the inventory entry of every block from \<open>j\<close> on is still the
  position of the first one of the block, whatever the span of that block.
\<close>

lemma no_spill_after_short_block:
  assumes B: "simple_select_build ef n var junk = Some (0, ef')"
    and opi: "1 < ef_ones_per_inventory ef'"
    and n: "length (ones_of ef) = n"
    and len: "ef_bitarraylen ef < 2 ^ 31"
    and short: "block_span ef' j < 2 ^ 16"
    and jm: "j \<le> m"
    and m: "m * ef_ones_per_inventory ef' < n"
  shows "ef_inventory ef' ! m = word_of_nat (ones_of ef ! (m * ef_ones_per_inventory ef'))"
proof -
  from third_loop_summary [OF B opi n len] obtain L inv1 E0 st where
    qe: "ef_ones_per_inventory ef' = 2 ^ L"
    and inv': "ef_inventory ef' = sl_inventory st"
    and I: "pass3_inv L inv1 E0 (ones_of ef) st"
    and low: "\<And>k. k * 2 ^ L < sl_d st \<Longrightarrow> spilled_block inv1 k"
    and all: "\<And>j. j * 2 ^ L < n \<Longrightarrow>
       inv1 ! j = word_of_nat (ones_of ef ! (j * 2 ^ L)) \<and>
       (spilled_block inv1 j \<longleftrightarrow> 2 ^ 16 \<le> block_span ef' j)"
    by blast
  have mn: "m * 2 ^ L < n" using m qe by simp
  have jm': "j * 2 ^ L \<le> m * 2 ^ L" by (rule mult_le_mono1 [OF jm])
  have jn: "j * 2 ^ L < n" by (rule le_less_trans [OF jm' mn])
  have "\<not> spilled_block inv1 j" using all [OF jn] short by simp
  then have "\<not> j * 2 ^ L < sl_d st" using low [of j] by blast
  then have "sl_d st \<le> m * 2 ^ L" using jm' by linarith
  then have "sl_inventory st ! m = inv1 ! m"
    using I unfolding pass3_inv_def by blast
  then show ?thesis using all [OF mn] by (simp add: inv' qe)
qed

text \<open>
  The lemma at the list \<open>ef_sparse 56 63 9\<close>: block 0 spans 2 bits, and the inventory
  entry of block 1 is the position 5.
\<close>

lemma no_spill_after_short_block_sparse:
  "\<exists>ef'. simple_select_build (ef_sparse 56 63 9) 9 False junk_zero = Some (0, ef') \<and>
     ef_ones_per_inventory ef' = 2 \<and>
     block_span ef' 0 = 2 \<and>
     ef_inventory ef' ! 1 = 5"
proof -
  define e where "e = \<lparr>ef_size = 9, ef_s = 0, ef_lower = \<lparr>ba_s = 0, ba_A = [], ba_curr = 9\<rparr>,
        ef_upper = \<lparr>ba_s = - 1, ba_A = 56 # replicate 1024 0 @ [63], ba_curr = 9\<rparr>,
        ef_bitarraylen = sparse_len, ef_num_ones = 9,
        ef_log2_ones_per_inventory = 1, ef_ones_per_inventory = 2,
        ef_ones_per_inventory_mask = 1, ef_inventory_size = 5,
        ef_inventory = [3, 5, 65601, 65603, 65605, 65664],
        ef_exact_spill = [0, 0, 0, 0], ef_spill_size = 4\<rparr>"
  have B: "simple_select_build (ef_sparse 56 63 9) 9 False junk_zero = Some (0, e)"
    unfolding e_def by (rule stalled_built)
  have q: "ef_ones_per_inventory e = 2" by (simp add: e_def)
  have P: "ones_of (ef_sparse 56 63 9) = [3, 4, 5, 65600, 65601, 65602, 65603, 65604, 65605]"
    by (rule ones_of_examples)
  have P': "ones_of e = ones_of (ef_sparse 56 63 9)"
    by (rule ones_of_cong) (simp_all add: e_def ef_sparse_def)
  have span: "block_span e 0 = 2"
    by (simp add: block_span_def Let_def P' P q)
  have h1: "1 < ef_ones_per_inventory e" by (simp add: q)
  have h2: "length (ones_of (ef_sparse 56 63 9)) = 9" by (simp add: P)
  have h3: "ef_bitarraylen (ef_sparse 56 63 9) < 2 ^ 31"
    by (simp add: ef_sparse_def sparse_len_def)
  have h4: "block_span e 0 < 2 ^ 16" by (simp add: span)
  have h5: "(0::nat) \<le> 1" by simp
  have h6: "1 * ef_ones_per_inventory e < 9" by (simp add: q)
  have "ef_inventory e ! 1 = 5"
    using no_spill_after_short_block [OF B h1 h2 h3 h4 h5 h6] by (simp add: P q)
  with B q span show ?thesis by blast
qed

text \<open>
  With one one per inventory block the second and the third loop are not run
  (\<^verbatim>\<open>if (ef->ones_per_inventory > 1)\<close>): the list \<open>ef_sparse 32 32 2\<close> has a block that
  spans 65600 bits, whose inventory entry stays the position 5 and whose one is not in
  the spill.
\<close>

lemma one_per_block_unspilled:
  "\<exists>ef'. simple_select_build (ef_sparse 32 32 2) 2 False junk_zero = Some (0, ef') \<and>
      ones_of ef' = [5, 65605] \<and>
      ef_ones_per_inventory ef' = 1 \<and>
      block_span ef' 0 = 65600 \<and>
      ef_inventory ef' ! 0 = 5 \<and>
      ef_exact_spill ef' = [0, 0, 0, 0]"
proof -
  define e where "e = \<lparr>ef_size = 2, ef_s = 0, ef_lower = \<lparr>ba_s = 0, ba_A = [], ba_curr = 2\<rparr>,
        ef_upper = \<lparr>ba_s = - 1, ba_A = 32 # replicate 1024 0 @ [32], ba_curr = 2\<rparr>,
        ef_bitarraylen = sparse_len, ef_num_ones = 2,
        ef_log2_ones_per_inventory = 0, ef_ones_per_inventory = 1,
        ef_ones_per_inventory_mask = 0, ef_inventory_size = 2,
        ef_inventory = [5, 65605, 65664],
        ef_exact_spill = [0, 0, 0, 0], ef_spill_size = 4\<rparr>"
  have B: "simple_select_build (ef_sparse 32 32 2) 2 False junk_zero = Some (0, e)"
    unfolding e_def by (rule single_built)
  have "ones_of e = ones_of (ef_sparse 32 32 2)"
    by (rule ones_of_cong) (simp_all add: e_def ef_sparse_def)
  then have P: "ones_of e = [5, 65605]" by (simp add: ones_of_examples)
  have q: "ef_ones_per_inventory e = 1" by (simp add: e_def)
  have span: "block_span e 0 = 65600" by (simp add: block_span_def Let_def P q)
  have "ef_inventory e ! 0 = 5 \<and> ef_exact_spill e = [0, 0, 0, 0]" by (simp add: e_def)
  with B P q span
  show ?thesis by blast
qed
end
